theory Spec2Isabelle
  imports Main
begin

section \<open>Data model\<close>

text \<open>
  The repository holds the class \<open>RefundBot\<close> twice: in \<^verbatim>\<open>src/refund/refund.js\<close> and,
  in a later revision, in the listing that follows the prose of \<^verbatim>\<open>src/README.md\<close>
  (lines 47 to 366), which is the one whose three-argument \<open>initKavaClient\<close> the
  start script calls. Both are embedded. A definition without suffix follows
  \<^verbatim>\<open>src/refund/refund.js\<close>; a definition with the suffix \<open>_v2\<close> follows the listing
  in \<^verbatim>\<open>src/README.md\<close>.

  The numbers the code computes with are counts, page numbers, offsets and sequence
  numbers: a JavaScript number that is a whole number is modelled by that \<open>int\<close>, and
  the sums the code forms are rounded as sums of doubles are (section Numbers). The
  value \<open>undefined\<close> is \<open>None\<close> of an option type. A thrown value is \<open>Inl e\<close> of a
  sum type.
\<close>

datatype exn = Error string | TypeError string

text \<open>A swap as Kava's \<open>getSwaps\<close> lists it: the three fields the bot reads.\<close>

record kava_swap =
  random_number_hash :: string
  sender :: string
  sender_other_chain :: string

text \<open>
  A swap as Binance Chain lists it. \<open>status\<close> is the number the code compares with
  \<open>1\<close> (open). \<open>expireHeight\<close> is the value of \<open>Number.parseInt(swap.expireHeight)\<close>,
  with \<open>None\<close> for \<open>NaN\<close>.
\<close>

record bnb_swap =
  swapId :: string
  status :: int
  expireHeight :: "int option"

text \<open>
  The answer of \<open>refundHTLT\<close>: \<open>res.status\<close> and the \<open>hash\<close> fields of the entries
  of \<open>res.result\<close>.
\<close>

record refund_response =
  res_status :: int
  res_result :: "string list"

text \<open>The fields the constructor of \<open>RefundBot\<close> sets, and \<open>bnbChainAddress\<close>.\<close>

record RefundBot =
  deputyAddresses :: "string list"
  limit :: int
  offsetIncoming :: int
  offsetOutgoing :: int
  bnbChainAddress :: string

text \<open>
  The two chain clients are external. Each operation takes the state \<open>'w\<close> of the
  world outside the process and returns its answer, or the value it throws, with the
  new state of the world. \<open>getSwaps\<close> takes the page (the offset in the later
  revision) and the limit; the status filter and the timeout of 5000 ms are
  constants of the call. \<open>getSwapByCreator\<close> and \<open>getSwapByRecipient\<close> answer with the
  value of \<open>_.get(res, 'result.atomicSwaps')\<close>, \<open>None\<close> when that path is absent.
  \<open>loadMetaData\<close> answers with \<open>Number(accountData.sequence)\<close>. \<open>nodeInfo\<close> is the
  request for \<open>/api/v1/node-info\<close> of the later revision together with the reading
  of \<open>result.sync_info.latest_block_height\<close>: it answers with the parsed height,
  \<open>None\<close> for \<open>NaN\<close>, and throws when the request fails or the field cannot be
  read. \<open>refundHTLT\<close> may be given \<open>undefined\<close> as the swap identifier.
  \<open>calculateSwapID\<close> is the pure function \<open>Kava.utils.calculateSwapID\<close>.
\<close>

record 'w clients =
  getSwaps :: "int \<Rightarrow> int \<Rightarrow> 'w \<Rightarrow> (exn + kava_swap list option) \<times> 'w"
  loadMetaData :: "'w \<Rightarrow> (exn + int) \<times> 'w"
  refundSwap :: "string \<Rightarrow> int \<Rightarrow> 'w \<Rightarrow> (exn + string) \<times> 'w"
  calculateSwapID :: "string \<Rightarrow> string \<Rightarrow> string \<Rightarrow> string"
  getSwapByCreator :: "string \<Rightarrow> int \<Rightarrow> int \<Rightarrow> 'w \<Rightarrow> (exn + bnb_swap list option) \<times> 'w"
  getSwapByRecipient :: "string \<Rightarrow> int \<Rightarrow> int \<Rightarrow> 'w \<Rightarrow> (exn + bnb_swap list option) \<times> 'w"
  refundHTLT :: "string \<Rightarrow> string option \<Rightarrow> 'w \<Rightarrow> (exn + refund_response option) \<times> 'w"
  nodeInfo :: "'w \<Rightarrow> (exn + int option) \<times> 'w"

text \<open>The lines written with \<open>console.log\<close>, one constructor for each call site.\<close>

datatype logline =
    KavaCount nat
  | BnbCount nat
  | Refunding "string option"
  | TxHash string
  | CouldNotRefund string
  | Exn exn
  | KavaQueryFailed
  | BnbQueryFailed bool
  | Offsets int int

text \<open>
  What the process does to the outside, in order: console lines, sleeps (in
  milliseconds) and the calls of the clients, each with what came back.
\<close>

datatype event =
    Console logline
  | Sleep int
  | KavaGetSwaps int int "exn + kava_swap list option"
  | KavaLoadMetaData "exn + int"
  | KavaRefundSwap string int "exn + string"
  | BnbGetSwapByCreator string int int "exn + bnb_swap list option"
  | BnbGetSwapByRecipient string int int "exn + bnb_swap list option"
  | BnbRefundHTLT string "string option" "exn + refund_response option"
  | BnbNodeInfo "exn + int option"

text \<open>The state a method runs in: the object, the world, and what happened so far.\<close>

record 'w state =
  self :: RefundBot
  world :: 'w
  trace :: "event list"

section \<open>Numbers\<close>

text \<open>
  A JavaScript number is an IEEE 754 double. Every whole number of magnitude up to
  \<open>2 ^ 53\<close> is a double; a larger whole number is one only if it fits in 53
  significant bits. \<open>a + b\<close> is the double nearest to the exact sum, the one with the
  even significand when two are equally near: \<open>2 ^ 53 + 1\<close> is \<open>2 ^ 53\<close> again.
  \<open>roundToDouble\<close> is that rounding on whole numbers. (From \<open>2 ^ 1024\<close> on JavaScript
  has \<open>Infinity\<close>, which is not a value here.)
\<close>

definition maxSafe :: int where
  "maxSafe = 2 ^ 53"

text \<open>The number of binary digits of \<open>n\<close>.\<close>

fun bitLength :: "nat \<Rightarrow> nat" where
  "bitLength n = (if n = 0 then 0 else Suc (bitLength (n div 2)))"

declare bitLength.simps [simp del]

definition roundToDouble :: "int \<Rightarrow> int" where
  "roundToDouble n =
     (if \<bar>n\<bar> \<le> maxSafe then n
      else (let e = bitLength (nat \<bar>n\<bar>) - 53;
                q = \<bar>n\<bar> div 2 ^ e;
                r = \<bar>n\<bar> mod 2 ^ e;
                q' = (if 2 * r > 2 ^ e \<or> (2 * r = 2 ^ e \<and> odd q) then q + 1 else q)
            in sgn n * (q' * 2 ^ e)))"

text \<open>\<open>a + b\<close> on numbers, and so \<open>i++\<close> and \<open>offset += limit\<close>.\<close>

definition js_add :: "int \<Rightarrow> int \<Rightarrow> int" where
  "js_add a b = roundToDouble (a + b)"

section \<open>Construction\<close>

definition RefundBot_new :: "string list \<Rightarrow> int \<Rightarrow> int \<Rightarrow> int \<Rightarrow> exn + RefundBot" where
  "RefundBot_new deputies lim offIn offOut =
     (if length deputies = 0
      then Inl (Error ''must specify at least one Binance Chain deputy address'')
      else Inr \<lparr>deputyAddresses = deputies, limit = lim, offsetIncoming = offIn,
                offsetOutgoing = offOut, bnbChainAddress = ''''\<rparr>)"

text \<open>The constructor with its default arguments.\<close>

definition RefundBot_default :: "string list \<Rightarrow> exn + RefundBot" where
  "RefundBot_default deputies = RefundBot_new deputies 100 0 0"

section \<open>Effects\<close>

definition console :: "logline \<Rightarrow> 'w state \<Rightarrow> 'w state" where
  "console l s = s\<lparr>trace := trace s @ [Console l]\<rparr>"

definition sleep :: "int \<Rightarrow> 'w state \<Rightarrow> 'w state" where
  "sleep ms s = s\<lparr>trace := trace s @ [Sleep ms]\<rparr>"

definition printOffsets :: "'w state \<Rightarrow> 'w state" where
  "printOffsets s = console (Offsets (offsetIncoming (self s)) (offsetOutgoing (self s))) s"

text \<open>A call of a client: the world moves on and the call is recorded.\<close>

definition call :: "('w \<Rightarrow> 'r \<times> 'w) \<Rightarrow> ('r \<Rightarrow> event) \<Rightarrow> 'w state \<Rightarrow> 'r \<times> 'w state" where
  "call f ev s =
     (let (r, w') = f (world s) in (r, s\<lparr>world := w', trace := trace s @ [ev r]\<rparr>))"

section \<open>Loops\<close>

text \<open>
  How one run of a loop body ends: the loop goes on with new local variables, the
  loop condition has become false (\<open>checkNextBatch = false\<close>), the enclosing function
  returns a value, or a value is thrown.
\<close>

datatype ('l, 'r) ctl = Continue 'l | Break 'l | Return 'r | Throw exn

text \<open>
  \<open>while (checkNextBatch) { ... }\<close>: the body is run until it does not continue.
  Nothing in the source bounds the number of rounds, so the model takes a bound and
  answers \<open>None\<close> when the loop is still running after that many rounds. The
  functions below hand the same bound to every loop they run, and answer \<open>None\<close>
  when one of their loops does. An answer \<open>Some\<close> never carries \<open>Continue\<close>.
\<close>

fun whileLoop :: "nat \<Rightarrow> ('l \<Rightarrow> 's \<Rightarrow> ('l, 'r) ctl \<times> 's) \<Rightarrow> 'l \<Rightarrow> 's \<Rightarrow> (('l, 'r) ctl \<times> 's) option" where
  "whileLoop 0 body l s = None"
| "whileLoop (Suc n) body l s =
     (case body l s of
        (Continue l', s') \<Rightarrow> whileLoop n body l' s'
      | (c, s') \<Rightarrow> Some (c, s'))"

text \<open>The local variables and the world at the start of round \<open>k\<close>, if the loop gets there.\<close>

fun loopReach :: "nat \<Rightarrow> ('l \<Rightarrow> 's \<Rightarrow> ('l, 'r) ctl \<times> 's) \<Rightarrow> 'l \<Rightarrow> 's \<Rightarrow> ('l \<times> 's) option" where
  "loopReach 0 body l s = Some (l, s)"
| "loopReach (Suc k) body l s =
     (case body l s of
        (Continue l', s') \<Rightarrow> loopReach k body l' s'
      | (c, s') \<Rightarrow> None)"

section \<open>Kava, as in refund.js\<close>

record kava_locals =
  expiredSwaps :: "kava_swap list"
  page :: int

definition kavaQuery :: "'w clients \<Rightarrow> int \<Rightarrow> 'w state \<Rightarrow> (exn + kava_swap list option) \<times> 'w state" where
  "kavaQuery c pg s = call (getSwaps c pg (limit (self s))) (KavaGetSwaps pg (limit (self s))) s"

text \<open>The body of the loop of \<open>getRefundableKavaSwaps\<close> (lines 141 to 156).\<close>

definition kavaScanBody :: "'w clients \<Rightarrow> kava_locals \<Rightarrow> 'w state \<Rightarrow> (kava_locals, string list option) ctl \<times> 'w state" where
  "kavaScanBody c L s =
     (case kavaQuery c (page L) s of
        (Inl e, s') \<Rightarrow> (Return None, console KavaQueryFailed s')
      | (Inr None, s') \<Rightarrow> (Throw (TypeError ''swapBatch is undefined''), s')
      | (Inr (Some swapBatch), s') \<Rightarrow>
          if length swapBatch > 0
          then (Continue \<lparr>expiredSwaps = expiredSwaps L @ swapBatch, page = js_add (page L) 1\<rparr>, s')
          else (Break L, s'))"

definition swapIDsOf :: "'w clients \<Rightarrow> kava_swap list \<Rightarrow> string list" where
  "swapIDsOf c xs =
     map (\<lambda>x. calculateSwapID c (random_number_hash x) (sender x) (sender_other_chain x)) xs"

definition getRefundableKavaSwaps :: "nat \<Rightarrow> 'w clients \<Rightarrow> 'w state \<Rightarrow> ((exn + string list option) \<times> 'w state) option" where
  "getRefundableKavaSwaps fuel c s =
     (case whileLoop fuel (kavaScanBody c) \<lparr>expiredSwaps = [], page = 1\<rparr> s of
        None \<Rightarrow> None
      | Some (Continue L, s') \<Rightarrow> None
      | Some (Break L, s') \<Rightarrow> Some (Inr (Some (swapIDsOf c (expiredSwaps L))), s')
      | Some (Return r, s') \<Rightarrow> Some (Inr r, s')
      | Some (Throw e, s') \<Rightarrow> Some (Inl e, s'))"

text \<open>
  The \<open>try\<close> block of the submission loop of \<open>refundKavaSwaps\<close> with its \<open>catch\<close>
  (lines 120 to 127; README.md, lines 172 to 183, where the call also carries a
  constant fee). The sequence handed to \<open>refundSwap\<close> is a decimal string, modelled
  by the number it spells.
\<close>

definition kavaRefundTry :: "'w clients \<Rightarrow> string \<Rightarrow> int \<Rightarrow> 'w state \<Rightarrow> 'w state" where
  "kavaRefundTry c swapID sequence s =
     (let s1 = console (Refunding (Some swapID)) s;
          (r, s2) = call (refundSwap c swapID sequence) (KavaRefundSwap swapID sequence) s1
      in case r of
           Inr txHash \<Rightarrow> console (TxHash txHash) s2
         | Inl e \<Rightarrow> console (Exn e) (console (CouldNotRefund swapID) s2))"

text \<open>
  The submission loop of \<open>refundKavaSwaps\<close> (lines 118 to 129), at index \<open>i\<close> with
  the identifiers from \<open>swapIDs[i]\<close> on still to go. \<open>base\<close> is
  \<open>Number(accountData.sequence)\<close>.
\<close>

fun kavaRefundLoop :: "'w clients \<Rightarrow> int \<Rightarrow> int \<Rightarrow> string list \<Rightarrow> 'w state \<Rightarrow> 'w state" where
  "kavaRefundLoop c base i [] s = s"
| "kavaRefundLoop c base i (swapID # rest) s =
     (let sequence = js_add base i;
          s1 = kavaRefundTry c swapID sequence s;
          s2 = sleep 7000 s1
      in kavaRefundLoop c base (js_add i 1) rest s2)"

definition refundKavaSwaps :: "nat \<Rightarrow> 'w clients \<Rightarrow> 'w state \<Rightarrow> ((exn + unit) \<times> 'w state) option" where
  "refundKavaSwaps fuel c s =
     (case getRefundableKavaSwaps fuel c s of
        None \<Rightarrow> None
      | Some (Inl e, s1) \<Rightarrow> Some (Inl e, s1)
      | Some (Inr None, s1) \<Rightarrow> Some (Inl (TypeError ''swapIDs is undefined''), s1)
      | Some (Inr (Some swapIDs), s1) \<Rightarrow>
          (let s2 = console (KavaCount (length swapIDs)) s1 in
           case call (loadMetaData c) KavaLoadMetaData s2 of
             (Inl e, s3) \<Rightarrow> Some (Inr (), console (Exn e) s3)
           | (Inr base, s3) \<Rightarrow> Some (Inr (), kavaRefundLoop c base 0 swapIDs s3)))"

section \<open>Binance Chain, as in refund.js\<close>

text \<open>
  The local variables of \<open>getRefundableBinanceSwaps\<close>; the two offsets are the local
  copies of the fields of the same names.
\<close>

record bnb_locals =
  openSwaps :: "bnb_swap list"
  loc_offsetIncoming :: int
  loc_offsetOutgoing :: int

definition bnbQuery :: "'w clients \<Rightarrow> bool \<Rightarrow> string \<Rightarrow> bnb_locals \<Rightarrow> 'w state \<Rightarrow> (exn + bnb_swap list option) \<times> 'w state" where
  "bnbQuery c incoming deputyAddress L s =
     (if incoming
      then call (getSwapByCreator c deputyAddress (limit (self s)) (loc_offsetIncoming L))
             (BnbGetSwapByCreator deputyAddress (limit (self s)) (loc_offsetIncoming L)) s
      else call (getSwapByRecipient c deputyAddress (limit (self s)) (loc_offsetOutgoing L))
             (BnbGetSwapByRecipient deputyAddress (limit (self s)) (loc_offsetOutgoing L)) s)"

text \<open>\<open>offset = offset + this.limit\<close> on the offset of the direction scanned.\<close>

definition advance :: "bool \<Rightarrow> int \<Rightarrow> bnb_locals \<Rightarrow> bnb_locals" where
  "advance incoming lim L =
     (if incoming then L\<lparr>loc_offsetIncoming := js_add (loc_offsetIncoming L) lim\<rparr>
      else L\<lparr>loc_offsetOutgoing := js_add (loc_offsetOutgoing L) lim\<rparr>)"

text \<open>The body of the inner loop of \<open>getRefundableBinanceSwaps\<close> (lines 213 to 257).\<close>

definition bnbScanBody :: "'w clients \<Rightarrow> bool \<Rightarrow> string \<Rightarrow> bnb_locals \<Rightarrow> 'w state \<Rightarrow> (bnb_locals, string list option) ctl \<times> 'w state" where
  "bnbScanBody c incoming deputyAddress L s =
     (case bnbQuery c incoming deputyAddress L s of
        (Inl e, s') \<Rightarrow> (Return None, console (BnbQueryFailed incoming) s')
      | (Inr None, s') \<Rightarrow> (Throw (TypeError ''swapBatch is undefined''), s')
      | (Inr (Some swapBatch), s') \<Rightarrow>
          if length swapBatch > 0
          then (let refundableSwapsInBatch = filter (\<lambda>swap. status swap = 1) swapBatch;
                    L1 = L\<lparr>openSwaps := openSwaps L @ refundableSwapsInBatch\<rparr>
                in if int (length swapBatch) \<le> limit (self s')
                   then (Continue (advance incoming (limit (self s')) L1), s')
                   else (Continue L1, s'))
          else (Break L, s'))"

text \<open>
  \<open>for (var deputyAddress of this.deputyAddresses)\<close>: the inner loop for each
  address in turn, on the same local variables. A \<open>return\<close> or a throw in the inner
  loop leaves the function.
\<close>

fun bnbScanDeputies :: "nat \<Rightarrow> 'w clients \<Rightarrow> bool \<Rightarrow> string list \<Rightarrow> bnb_locals \<Rightarrow> 'w state \<Rightarrow> ((bnb_locals, string list option) ctl \<times> 'w state) option" where
  "bnbScanDeputies fuel c incoming [] L s = Some (Break L, s)"
| "bnbScanDeputies fuel c incoming (deputyAddress # rest) L s =
     (case whileLoop fuel (bnbScanBody c incoming deputyAddress) L s of
        None \<Rightarrow> None
      | Some (Continue L', s') \<Rightarrow> None
      | Some (Break L', s') \<Rightarrow> bnbScanDeputies fuel c incoming rest L' s'
      | Some (Return r, s') \<Rightarrow> Some (Return r, s')
      | Some (Throw e, s') \<Rightarrow> Some (Throw e, s'))"

definition bnbLocalsInit :: "'w state \<Rightarrow> bnb_locals" where
  "bnbLocalsInit s =
     \<lparr>openSwaps = [], loc_offsetIncoming = offsetIncoming (self s),
      loc_offsetOutgoing = offsetOutgoing (self s)\<rparr>"

definition getRefundableBinanceSwaps :: "nat \<Rightarrow> 'w clients \<Rightarrow> bool \<Rightarrow> 'w state \<Rightarrow> ((exn + string list option) \<times> 'w state) option" where
  "getRefundableBinanceSwaps fuel c incoming s =
     (case bnbScanDeputies fuel c incoming (deputyAddresses (self s)) (bnbLocalsInit s) s of
        None \<Rightarrow> None
      | Some (Continue L, s') \<Rightarrow> None
      | Some (Break L, s') \<Rightarrow> Some (Inr (Some (map swapId (openSwaps L))), s')
      | Some (Return r, s') \<Rightarrow> Some (Inr r, s')
      | Some (Throw e, s') \<Rightarrow> Some (Inl e, s'))"

text \<open>
  \<open>incomingSwaps.concat(outgoingSwaps)\<close> on an array \<open>incomingSwaps\<close>: the elements
  of an array argument are appended, any other argument is appended as one element.
\<close>

definition js_concat :: "string list \<Rightarrow> string list option \<Rightarrow> string option list" where
  "js_concat xs arg =
     (case arg of None \<Rightarrow> map Some xs @ [None] | Some ys \<Rightarrow> map Some (xs @ ys))"

text \<open>
  One round of the submission loop of \<open>refundBinanceChainSwaps\<close> up to the sleep:
  the \<open>try\<close> block with its \<open>catch\<close>. Reading \<open>res.result[0].hash\<close> of an empty
  \<open>result\<close> throws inside the \<open>try\<close>.
\<close>

definition bnbRefundOne :: "'w clients \<Rightarrow> string option \<Rightarrow> 'w state \<Rightarrow> 'w state" where
  "bnbRefundOne c swapID s =
     (let s1 = console (Refunding swapID) s;
          (r, s2) = call (refundHTLT c (bnbChainAddress (self s1)) swapID)
                      (BnbRefundHTLT (bnbChainAddress (self s1)) swapID) s1
      in case r of
           Inl e \<Rightarrow> console (Exn e) s2
         | Inr None \<Rightarrow> s2
         | Inr (Some res) \<Rightarrow>
             if res_status res = 200
             then (case res_result res of
                     [] \<Rightarrow> console (Exn (TypeError ''res.result[0] is undefined'')) s2
                   | h # _ \<Rightarrow> console (TxHash h) s2)
             else s2)"

fun bnbRefundLoop :: "'w clients \<Rightarrow> string option list \<Rightarrow> 'w state \<Rightarrow> 'w state" where
  "bnbRefundLoop c [] s = s"
| "bnbRefundLoop c (swapID # rest) s = bnbRefundLoop c rest (sleep 3000 (bnbRefundOne c swapID s))"

definition refundBinanceChainSwaps :: "nat \<Rightarrow> 'w clients \<Rightarrow> 'w state \<Rightarrow> ((exn + unit) \<times> 'w state) option" where
  "refundBinanceChainSwaps fuel c s =
     (case getRefundableBinanceSwaps fuel c True s of
        None \<Rightarrow> None
      | Some (Inl e, s1) \<Rightarrow> Some (Inl e, s1)
      | Some (Inr incomingSwaps, s1) \<Rightarrow>
          (case getRefundableBinanceSwaps fuel c False s1 of
             None \<Rightarrow> None
           | Some (Inl e, s2) \<Rightarrow> Some (Inl e, s2)
           | Some (Inr outgoingSwaps, s2) \<Rightarrow>
               (case incomingSwaps of
                  None \<Rightarrow> Some (Inl (TypeError ''incomingSwaps is undefined''), s2)
                | Some inc \<Rightarrow>
                    (let swapIDs = js_concat inc outgoingSwaps;
                         s3 = console (BnbCount (length swapIDs)) s2
                     in Some (Inr (), bnbRefundLoop c swapIDs s3)))))"

section \<open>The cycle, as in refund.js\<close>

definition refundSwaps :: "nat \<Rightarrow> 'w clients \<Rightarrow> 'w state \<Rightarrow> ((exn + unit) \<times> 'w state) option" where
  "refundSwaps fuel c s =
     (case refundKavaSwaps fuel c s of
        None \<Rightarrow> None
      | Some (Inl e, s1) \<Rightarrow> Some (Inl e, s1)
      | Some (Inr u, s1) \<Rightarrow> refundBinanceChainSwaps fuel c s1)"

section \<open>The later revision, as listed in README.md\<close>

text \<open>
  \<open>asyncForEach(array, callback)\<close>: the callback on each element in turn. \<open>'l\<close> are the
  variables of the enclosing function that the callback assigns. A callback that
  throws ends the iteration; one that does not return leaves the whole without result.
\<close>

fun asyncForEach :: "'a list \<Rightarrow> ('a \<Rightarrow> 'l \<Rightarrow> 's \<Rightarrow> ((exn + 'l) \<times> 's) option) \<Rightarrow> 'l \<Rightarrow> 's \<Rightarrow> ((exn + 'l) \<times> 's) option" where
  "asyncForEach [] callback l s = Some (Inr l, s)"
| "asyncForEach (x # xs) callback l s =
     (case callback x l s of
        None \<Rightarrow> None
      | Some (Inl e, s') \<Rightarrow> Some (Inl e, s')
      | Some (Inr l', s') \<Rightarrow> asyncForEach xs callback l' s')"

subsection \<open>Kava\<close>

record kava_locals_v2 =
  expiredSwaps_v2 :: "kava_swap list"
  offset :: int

definition kavaQuery_v2 :: "'w clients \<Rightarrow> int \<Rightarrow> 'w state \<Rightarrow> (exn + kava_swap list option) \<times> 'w state" where
  "kavaQuery_v2 c off s = call (getSwaps c off (limit (self s))) (KavaGetSwaps off (limit (self s))) s"

text \<open>The body of the loop of \<open>getRefundableKavaSwaps\<close> (README.md, lines 198 to 217).\<close>

definition kavaScanBody_v2 :: "'w clients \<Rightarrow> kava_locals_v2 \<Rightarrow> 'w state \<Rightarrow> (kava_locals_v2, string list) ctl \<times> 'w state" where
  "kavaScanBody_v2 c L s =
     (case kavaQuery_v2 c (offset L) s of
        (Inl e, s') \<Rightarrow> (Return [], console KavaQueryFailed s')
      | (Inr None, s') \<Rightarrow> (Break L, s')
      | (Inr (Some swapBatch), s') \<Rightarrow>
          if length swapBatch > 0
          then (Continue \<lparr>expiredSwaps_v2 = expiredSwaps_v2 L @ swapBatch,
                          offset = js_add (offset L) (limit (self s'))\<rparr>, s')
          else (Break L, s'))"

definition getRefundableKavaSwaps_v2 :: "nat \<Rightarrow> 'w clients \<Rightarrow> 'w state \<Rightarrow> ((exn + string list) \<times> 'w state) option" where
  "getRefundableKavaSwaps_v2 fuel c s =
     (case whileLoop fuel (kavaScanBody_v2 c) \<lparr>expiredSwaps_v2 = [], offset = 0\<rparr> s of
        None \<Rightarrow> None
      | Some (Continue L, s') \<Rightarrow> None
      | Some (Break L, s') \<Rightarrow> Some (Inr (swapIDsOf c (expiredSwaps_v2 L)), s')
      | Some (Return r, s') \<Rightarrow> Some (Inr r, s')
      | Some (Throw e, s') \<Rightarrow> Some (Inl e, s'))"

text \<open>
  The callback of the submission loop of \<open>refundKavaSwaps\<close> (README.md, lines 170 to
  186); the variable it assigns is the counter \<open>i\<close>.
\<close>

definition kavaRefundOne_v2 :: "'w clients \<Rightarrow> int \<Rightarrow> string \<Rightarrow> int \<Rightarrow> 'w state \<Rightarrow> ((exn + int) \<times> 'w state) option" where
  "kavaRefundOne_v2 c base swapID i s =
     (let sequence = js_add base i;
          s1 = kavaRefundTry c swapID sequence s;
          s2 = sleep 25000 s1
      in Some (Inr (js_add i 1), s2))"

definition refundKavaSwaps_v2 :: "nat \<Rightarrow> 'w clients \<Rightarrow> 'w state \<Rightarrow> ((exn + unit) \<times> 'w state) option" where
  "refundKavaSwaps_v2 fuel c s =
     (case getRefundableKavaSwaps_v2 fuel c s of
        None \<Rightarrow> None
      | Some (Inl e, s1) \<Rightarrow> Some (Inl e, s1)
      | Some (Inr swapIDs, s1) \<Rightarrow>
          (let s2 = console (KavaCount (length swapIDs)) s1 in
           case call (loadMetaData c) KavaLoadMetaData s2 of
             (Inl e, s3) \<Rightarrow> Some (Inr (), console (Exn e) s3)
           | (Inr base, s3) \<Rightarrow>
               (case asyncForEach swapIDs (kavaRefundOne_v2 c base) 0 s3 of
                  None \<Rightarrow> None
                | Some (Inl e, s4) \<Rightarrow> Some (Inl e, s4)
                | Some (Inr i, s4) \<Rightarrow> Some (Inr (), s4))))"

subsection \<open>Binance Chain\<close>

text \<open>\<open>a <= b\<close> on numbers that may be \<open>NaN\<close>: false when either is.\<close>

definition js_le :: "int option \<Rightarrow> int option \<Rightarrow> bool" where
  "js_le a b = (case (a, b) of (Some x, Some y) \<Rightarrow> x \<le> y | _ \<Rightarrow> False)"

text \<open>The filter of README.md, lines 311 to 316.\<close>

definition refundable_v2 :: "int option \<Rightarrow> bnb_swap \<Rightarrow> bool" where
  "refundable_v2 latestBnbBlockHeight swap =
     (status swap = 1 \<and> js_le (expireHeight swap) latestBnbBlockHeight)"

text \<open>
  \<open>offsetIncoming = this.offsetIncoming; offsetOutgoing = this.offsetOutgoing\<close>, the
  two assignments of the \<open>else\<close> branch (README.md, lines 330 and 331).
\<close>

definition resetOffsets :: "'w state \<Rightarrow> bnb_locals \<Rightarrow> bnb_locals" where
  "resetOffsets s L =
     L\<lparr>loc_offsetIncoming := offsetIncoming (self s), loc_offsetOutgoing := offsetOutgoing (self s)\<rparr>"

text \<open>
  The body of the inner loop of \<open>getRefundableBinanceSwaps\<close> (README.md, lines 283
  to 332). The condition is \<open>swapBatch && swapBatch.length > 0\<close>, so an absent batch
  takes the \<open>else\<close> branch. The \<open>return\<close> of the \<open>catch\<close> block is inside the
  callback handed to \<open>asyncForEach\<close>: it ends the callback, with the local variables
  as they are.
\<close>

definition bnbScanBody_v2 :: "'w clients \<Rightarrow> bool \<Rightarrow> int option \<Rightarrow> string \<Rightarrow> bnb_locals \<Rightarrow> 'w state \<Rightarrow> (bnb_locals, bnb_locals) ctl \<times> 'w state" where
  "bnbScanBody_v2 c incoming latestBnbBlockHeight deputyAddress L s =
     (case bnbQuery c incoming deputyAddress L s of
        (Inl e, s') \<Rightarrow> (Return L, console (BnbQueryFailed incoming) s')
      | (Inr None, s') \<Rightarrow> (Break (resetOffsets s' L), s')
      | (Inr (Some swapBatch), s') \<Rightarrow>
          if length swapBatch > 0
          then (let refundableSwapsInBatch = filter (refundable_v2 latestBnbBlockHeight) swapBatch;
                    L1 = L\<lparr>openSwaps := openSwaps L @ refundableSwapsInBatch\<rparr>
                in if int (length swapBatch) \<le> limit (self s')
                   then (Continue (advance incoming (limit (self s')) L1), s')
                   else (Continue L1, s'))
          else (Break (resetOffsets s' L), s'))"

text \<open>The callback handed to \<open>asyncForEach\<close> over the deputy addresses.\<close>

definition bnbScanDeputy_v2 :: "nat \<Rightarrow> 'w clients \<Rightarrow> bool \<Rightarrow> int option \<Rightarrow> string \<Rightarrow> bnb_locals \<Rightarrow> 'w state \<Rightarrow> ((exn + bnb_locals) \<times> 'w state) option" where
  "bnbScanDeputy_v2 fuel c incoming latestBnbBlockHeight deputyAddress L s =
     (case whileLoop fuel (bnbScanBody_v2 c incoming latestBnbBlockHeight deputyAddress) L s of
        None \<Rightarrow> None
      | Some (Continue L', s') \<Rightarrow> None
      | Some (Break L', s') \<Rightarrow> Some (Inr L', s')
      | Some (Return L', s') \<Rightarrow> Some (Inr L', s')
      | Some (Throw e, s') \<Rightarrow> Some (Inl e, s'))"

definition getRefundableBinanceSwaps_v2 :: "nat \<Rightarrow> 'w clients \<Rightarrow> bool \<Rightarrow> 'w state \<Rightarrow> ((exn + string list) \<times> 'w state) option" where
  "getRefundableBinanceSwaps_v2 fuel c incoming s =
     (case call (nodeInfo c) BnbNodeInfo s of
        (Inl e, s1) \<Rightarrow> Some (Inl e, s1)
      | (Inr latestBnbBlockHeight, s1) \<Rightarrow>
          (case asyncForEach (deputyAddresses (self s1))
                  (bnbScanDeputy_v2 fuel c incoming latestBnbBlockHeight) (bnbLocalsInit s) s1 of
             None \<Rightarrow> None
           | Some (Inl e, s2) \<Rightarrow> Some (Inl e, s2)
           | Some (Inr L, s2) \<Rightarrow> Some (Inr (map swapId (openSwaps L)), s2)))"

text \<open>The callback of the submission loop of \<open>refundBinanceChainSwaps\<close> (README.md, lines 244 to 258).\<close>

definition bnbRefundCallback_v2 :: "'w clients \<Rightarrow> string \<Rightarrow> unit \<Rightarrow> 'w state \<Rightarrow> ((exn + unit) \<times> 'w state) option" where
  "bnbRefundCallback_v2 c swapID u s = Some (Inr (), sleep 5000 (bnbRefundOne c (Some swapID) s))"

definition refundBinanceChainSwaps_v2 :: "nat \<Rightarrow> 'w clients \<Rightarrow> 'w state \<Rightarrow> ((exn + unit) \<times> 'w state) option" where
  "refundBinanceChainSwaps_v2 fuel c s =
     (case getRefundableBinanceSwaps_v2 fuel c True s of
        None \<Rightarrow> None
      | Some (Inl e, s1) \<Rightarrow> Some (Inl e, s1)
      | Some (Inr incomingSwaps, s1) \<Rightarrow>
          (case getRefundableBinanceSwaps_v2 fuel c False s1 of
             None \<Rightarrow> None
           | Some (Inl e, s2) \<Rightarrow> Some (Inl e, s2)
           | Some (Inr outgoingSwaps, s2) \<Rightarrow>
               (let swapIDs = incomingSwaps @ outgoingSwaps;
                    s3 = console (BnbCount (length swapIDs)) s2
                in asyncForEach swapIDs (bnbRefundCallback_v2 c) () s3)))"

subsection \<open>The cycle\<close>

definition refundSwaps_v2 :: "nat \<Rightarrow> 'w clients \<Rightarrow> 'w state \<Rightarrow> ((exn + unit) \<times> 'w state) option" where
  "refundSwaps_v2 fuel c s =
     (case refundKavaSwaps_v2 fuel c s of
        None \<Rightarrow> None
      | Some (Inl e, s1) \<Rightarrow> Some (Inl e, s1)
      | Some (Inr u, s1) \<Rightarrow> refundBinanceChainSwaps_v2 fuel c s1)"

section \<open>Reading a trace\<close>

text \<open>The events a run has added to the trace it started with.\<close>

definition newEvents :: "'w state \<Rightarrow> 'w state \<Rightarrow> event list" where
  "newEvents s s' = drop (length (trace s)) (trace s')"

text \<open>An answer to a listing query that carries at least one swap.\<close>

fun nonEmptyPage :: "exn + 'a list option \<Rightarrow> bool" where
  "nonEmptyPage (Inr (Some b)) = (b \<noteq> [])"
| "nonEmptyPage (Inr None) = False"
| "nonEmptyPage (Inl e) = False"

text \<open>The local offset of the direction scanned.\<close>

definition offsetOf :: "bool \<Rightarrow> bnb_locals \<Rightarrow> int" where
  "offsetOf incoming L = (if incoming then loc_offsetIncoming L else loc_offsetOutgoing L)"

text \<open>The swaps that the listing queries of a trace returned, in order.\<close>

fun kavaFetched :: "event list \<Rightarrow> kava_swap list" where
  "kavaFetched [] = []"
| "kavaFetched (KavaGetSwaps pg lim (Inr (Some b)) # es) = b @ kavaFetched es"
| "kavaFetched (e # es) = kavaFetched es"

fun bnbFetched :: "event list \<Rightarrow> bnb_swap list" where
  "bnbFetched [] = []"
| "bnbFetched (BnbGetSwapByCreator d lim off (Inr (Some b)) # es) = b @ bnbFetched es"
| "bnbFetched (BnbGetSwapByRecipient d lim off (Inr (Some b)) # es) = b @ bnbFetched es"
| "bnbFetched (e # es) = bnbFetched es"

text \<open>The listing queries to Binance Chain in a trace: address and offset of each.\<close>

fun bnbQueries :: "event list \<Rightarrow> (string \<times> int) list" where
  "bnbQueries [] = []"
| "bnbQueries (BnbGetSwapByCreator d lim off r # es) = (d, off) # bnbQueries es"
| "bnbQueries (BnbGetSwapByRecipient d lim off r # es) = (d, off) # bnbQueries es"
| "bnbQueries (e # es) = bnbQueries es"



fun bnbAnswers :: "event list \<Rightarrow> (exn + bnb_swap list option) list" where
  "bnbAnswers [] = []"
| "bnbAnswers (BnbGetSwapByCreator d lim off r # es) = r # bnbAnswers es"
| "bnbAnswers (BnbGetSwapByRecipient d lim off r # es) = r # bnbAnswers es"
| "bnbAnswers (e # es) = bnbAnswers es"

text \<open>The refund submissions in a trace: to Kava with the sequence, to Binance Chain.\<close>

fun kavaSubmissions :: "event list \<Rightarrow> (string \<times> int) list" where
  "kavaSubmissions [] = []"
| "kavaSubmissions (KavaRefundSwap swapID q r # es) = (swapID, q) # kavaSubmissions es"
| "kavaSubmissions (e # es) = kavaSubmissions es"

fun bnbSubmissions :: "event list \<Rightarrow> string option list" where
  "bnbSubmissions [] = []"
| "bnbSubmissions (BnbRefundHTLT a swapID r # es) = swapID # bnbSubmissions es"
| "bnbSubmissions (e # es) = bnbSubmissions es"

text \<open>The answers to \<open>loadMetaData\<close> in a trace.\<close>

fun metaDataLoads :: "event list \<Rightarrow> (exn + int) list" where
  "metaDataLoads [] = []"
| "metaDataLoads (KavaLoadMetaData r # es) = r # metaDataLoads es"
| "metaDataLoads (e # es) = metaDataLoads es"

text \<open>The values that submissions threw, and the values written to the console.\<close>

fun thrownBySubmissions :: "event list \<Rightarrow> exn list" where
  "thrownBySubmissions [] = []"
| "thrownBySubmissions (KavaRefundSwap swapID q (Inl e) # es) = e # thrownBySubmissions es"
| "thrownBySubmissions (BnbRefundHTLT a swapID (Inl e) # es) = e # thrownBySubmissions es"
| "thrownBySubmissions (e # es) = thrownBySubmissions es"

fun loggedExns :: "event list \<Rightarrow> exn list" where
  "loggedExns [] = []"
| "loggedExns (Console (Exn e) # es) = e # loggedExns es"
| "loggedExns (e # es) = loggedExns es"

text \<open>
  Submissions and sleeps of a trace in order: \<open>None\<close> for a submission, the
  milliseconds for a sleep.
\<close>

fun pacing :: "event list \<Rightarrow> int option list" where
  "pacing [] = []"
| "pacing (KavaRefundSwap swapID q r # es) = None # pacing es"
| "pacing (BnbRefundHTLT a swapID r # es) = None # pacing es"
| "pacing (Sleep ms # es) = Some ms # pacing es"
| "pacing (e # es) = pacing es"

text \<open>The events a scan can add: listing queries, the node-info query, and the two lines that report a failed query.\<close>

fun isScanEvent :: "event \<Rightarrow> bool" where
  "isScanEvent (KavaGetSwaps pg lim r) = True"
| "isScanEvent (BnbGetSwapByCreator d lim off r) = True"
| "isScanEvent (BnbGetSwapByRecipient d lim off r) = True"
| "isScanEvent (BnbNodeInfo r) = True"
| "isScanEvent (Console KavaQueryFailed) = True"
| "isScanEvent (Console (BnbQueryFailed b)) = True"
| "isScanEvent e = False"

text \<open>
  The events of one round of a submission loop, for reading a trace round by round.
  A round on Kava announces the swap, submits it with a sequence, writes the
  transaction hash or, when the submission threw, that the swap could not be refunded
  and the error, and sleeps. A round on Binance Chain announces the swap, submits it,
  writes the hash when the answer has status 200 or the error when the submission
  threw (or the answer with status 200 carries no result), nothing otherwise, and
  sleeps.
\<close>

definition kavaRound :: "int \<Rightarrow> string \<Rightarrow> int \<Rightarrow> exn + string \<Rightarrow> event list" where
  "kavaRound ms swapID q answer =
     [Console (Refunding (Some swapID)), KavaRefundSwap swapID q answer]
     @ (case answer of
          Inr txHash \<Rightarrow> [Console (TxHash txHash)]
        | Inl e \<Rightarrow> [Console (CouldNotRefund swapID), Console (Exn e)])
     @ [Sleep ms]"

definition bnbRound :: "int \<Rightarrow> string \<Rightarrow> string option \<Rightarrow> exn + refund_response option \<Rightarrow> event list" where
  "bnbRound ms address swapID answer =
     [Console (Refunding swapID), BnbRefundHTLT address swapID answer]
     @ (case answer of
          Inl e \<Rightarrow> [Console (Exn e)]
        | Inr None \<Rightarrow> []
        | Inr (Some res) \<Rightarrow>
            if res_status res = 200
            then (case res_result res of
                    [] \<Rightarrow> [Console (Exn (TypeError ''res.result[0] is undefined''))]
                  | h # _ \<Rightarrow> [Console (TxHash h)])
            else [])
     @ [Sleep ms]"

text \<open>What a run may add to the trace, and that it leaves the object alone.\<close>

definition extends :: "'w state \<Rightarrow> 'w state \<Rightarrow> (event list \<Rightarrow> bool) \<Rightarrow> bool" where
  "extends s s' Q = (self s' = self s \<and> (\<exists>es. trace s' = trace s @ es \<and> Q es))"

text \<open>
  A loop terminates when some bound on its rounds lets it finish. The answers run out
  of swaps when the loop reaches a round in which the answer to its query is not a
  page with a swap in it: an empty batch, no batch at all, or a thrown error.
\<close>

definition terminates :: "('l \<Rightarrow> 's \<Rightarrow> ('l, 'r) ctl \<times> 's) \<Rightarrow> 'l \<Rightarrow> 's \<Rightarrow> bool" where
  "terminates body l s = (\<exists>n. whileLoop n body l s \<noteq> None)"

definition pagesRunOut :: "('l \<Rightarrow> 's \<Rightarrow> ('l, 'r) ctl \<times> 's) \<Rightarrow> ('l \<Rightarrow> 's \<Rightarrow> exn + 'a list option) \<Rightarrow> 'l \<Rightarrow> 's \<Rightarrow> bool" where
  "pagesRunOut body answer l s =
     (\<exists>k l' s'. loopReach k body l s = Some (l', s') \<and> \<not> nonEmptyPage (answer l' s'))"

text \<open>
  The scan of Binance Chain over the deputies \<open>ds\<close>, from the local variables \<open>L\<close> in
  the state \<open>s\<close>, finds an end to every deputy's swaps: the loop for each deputy in
  turn, started where the loop before it stopped, comes after finitely many pages
  that hold a swap to the empty batch, which ends it. \<open>sf\<close> is the state after the
  last deputy. (The third premise follows from the two before it; it names where the
  loop stops.)
\<close>

inductive emptyPageEnds :: "'w clients \<Rightarrow> bool \<Rightarrow> string list \<Rightarrow> bnb_locals \<Rightarrow> 'w state \<Rightarrow> 'w state \<Rightarrow> bool"
  for c :: "'w clients" and incoming :: bool where
  emptyPageEnds_Nil: "emptyPageEnds c incoming [] L s s"
| emptyPageEnds_Cons:
  "loopReach k (bnbScanBody c incoming d) L s = Some (L', s') \<Longrightarrow>
   fst (bnbQuery c incoming d L' s') = Inr (Some []) \<Longrightarrow>
   whileLoop (Suc k) (bnbScanBody c incoming d) L s = Some (Break L1, s1) \<Longrightarrow>
   emptyPageEnds c incoming ds L1 s1 sf \<Longrightarrow>
   emptyPageEnds c incoming (d # ds) L s sf"

inductive emptyPageEnds_v2 :: "'w clients \<Rightarrow> bool \<Rightarrow> int option \<Rightarrow> string list \<Rightarrow> bnb_locals \<Rightarrow> 'w state \<Rightarrow> 'w state \<Rightarrow> bool"
  for c :: "'w clients" and incoming :: bool and h :: "int option" where
  emptyPageEnds_v2_Nil: "emptyPageEnds_v2 c incoming h [] L s s"
| emptyPageEnds_v2_Cons:
  "loopReach k (bnbScanBody_v2 c incoming h d) L s = Some (L', s') \<Longrightarrow>
   fst (bnbQuery c incoming d L' s') = Inr (Some []) \<Longrightarrow>
   whileLoop (Suc k) (bnbScanBody_v2 c incoming h d) L s = Some (Break L1, s1) \<Longrightarrow>
   emptyPageEnds_v2 c incoming h ds L1 s1 sf \<Longrightarrow>
   emptyPageEnds_v2 c incoming h (d # ds) L s sf"

section \<open>Example worlds\<close>

text \<open>
  Clients over a chain that does not change during the run: a listing query answers
  with the slice of the chain's swaps at the offset asked for.
\<close>

definition pageAt :: "'a list \<Rightarrow> int \<Rightarrow> int \<Rightarrow> 'a list" where
  "pageAt xs lim off = take (nat lim) (drop (nat off) xs)"

definition chainClients :: "kava_swap list \<Rightarrow> (string \<Rightarrow> bnb_swap list) \<Rightarrow> (string \<Rightarrow> bnb_swap list) \<Rightarrow> unit clients" where
  "chainClients kavaSwaps created received =
     \<lparr>getSwaps = (\<lambda>pg lim w. (Inr (Some (pageAt kavaSwaps lim ((pg - 1) * lim))), w)),
      loadMetaData = (\<lambda>w. (Inr 40, w)),
      refundSwap = (\<lambda>swapID q w. (Inr (''tx-'' @ swapID), w)),
      calculateSwapID = (\<lambda>h a b. h @ a @ b),
      getSwapByCreator = (\<lambda>d lim off w. (Inr (Some (pageAt (created d) lim off)), w)),
      getSwapByRecipient = (\<lambda>d lim off w. (Inr (Some (pageAt (received d) lim off)), w)),
      refundHTLT = (\<lambda>a swapID w. (Inr (Some \<lparr>res_status = 200, res_result = [''hash'']\<rparr>), w)),
      nodeInfo = (\<lambda>w. (Inr (Some 500), w))\<rparr>"

definition openSwap :: "string \<Rightarrow> int \<Rightarrow> bnb_swap" where
  "openSwap i h = \<lparr>swapId = i, status = 1, expireHeight = Some h\<rparr>"

definition startState :: "string list \<Rightarrow> int \<Rightarrow> unit state" where
  "startState deputies lim =
     \<lparr>self = \<lparr>deputyAddresses = deputies, limit = lim, offsetIncoming = 0,
              offsetOutgoing = 0, bnbChainAddress = ''bnb1bot''\<rparr>,
      world = (), trace = []\<rparr>"

text \<open>The same chain behind the offset-based \<open>getSwaps\<close> of the later revision.\<close>

definition chainClients_v2 :: "kava_swap list \<Rightarrow> (string \<Rightarrow> bnb_swap list) \<Rightarrow> (string \<Rightarrow> bnb_swap list) \<Rightarrow> unit clients" where
  "chainClients_v2 kavaSwaps created received =
     (chainClients kavaSwaps created received)
       \<lparr>getSwaps := (\<lambda>off lim w. (Inr (Some (pageAt kavaSwaps lim off)), w))\<rparr>"

definition kavaSwapA :: kava_swap where
  "kavaSwapA = \<lparr>random_number_hash = ''h'', sender = ''k'', sender_other_chain = ''b''\<rparr>"

text \<open>A deputy's swaps on the example chains: nothing unless said otherwise.\<close>

definition noSwaps :: "string \<Rightarrow> bnb_swap list" where
  "noSwaps d = []"

text \<open>Deputy \<open>d1\<close> created one open swap that expires at height 900; the chain is at 500.\<close>

definition oneSwapClients :: "unit clients" where
  "oneSwapClients = chainClients [] (noSwaps(''d1'' := [openSwap ''a'' 900])) noSwaps"

text \<open>Deputy \<open>d1\<close> created two open swaps, deputy \<open>d2\<close> one; all have expired.\<close>

definition twoDeputyClients :: "unit clients" where
  "twoDeputyClients =
     chainClients_v2 []
       (noSwaps(''d1'' := [openSwap ''a'' 10, openSwap ''b'' 20], ''d2'' := [openSwap ''c'' 30]))
       noSwaps"

definition kavaSwapB :: kava_swap where
  "kavaSwapB = \<lparr>random_number_hash = ''g'', sender = ''k'', sender_other_chain = ''b''\<rparr>"

text \<open>Kava holds two expired swaps; Binance Chain holds none. The account sequence is 40.\<close>

definition twoKavaClients :: "unit clients" where
  "twoKavaClients = chainClients [kavaSwapA, kavaSwapB] noSwaps noSwaps"

definition twoKavaClients_v2 :: "unit clients" where
  "twoKavaClients_v2 = chainClients_v2 [kavaSwapA, kavaSwapB] noSwaps noSwaps"

text \<open>The same, with a rest-server that fails to load the account data.\<close>

definition noMetaDataClients :: "unit clients" where
  "noMetaDataClients = twoKavaClients\<lparr>loadMetaData := (\<lambda>w. (Inl (Error ''timeout''), w))\<rparr>"

definition noMetaDataClients_v2 :: "unit clients" where
  "noMetaDataClients_v2 = twoKavaClients_v2\<lparr>loadMetaData := (\<lambda>w. (Inl (Error ''timeout''), w))\<rparr>"

text \<open>One expired swap on Kava, and one expired swap that deputy \<open>d1\<close> created on Binance Chain.\<close>

definition oneEachClients :: "unit clients" where
  "oneEachClients = chainClients [kavaSwapA] (noSwaps(''d1'' := [openSwap ''a'' 10])) noSwaps"

text \<open>What a cycle of refund.js does on that world, with \<open>limit = 1\<close>.\<close>

definition oneEachTrace :: "event list" where
  "oneEachTrace =
     [KavaGetSwaps 1 1 (Inr (Some [kavaSwapA])),
      KavaGetSwaps 2 1 (Inr (Some [])),
      Console (KavaCount 1),
      KavaLoadMetaData (Inr 40),
      Console (Refunding (Some ''hkb'')),
      KavaRefundSwap ''hkb'' 40 (Inr ''tx-hkb''),
      Console (TxHash ''tx-hkb''),
      Sleep 7000,
      BnbGetSwapByCreator ''d1'' 1 0 (Inr (Some [openSwap ''a'' 10])),
      BnbGetSwapByCreator ''d1'' 1 1 (Inr (Some [])),
      BnbGetSwapByRecipient ''d1'' 1 0 (Inr (Some [])),
      Console (BnbCount 1),
      Console (Refunding (Some ''a'')),
      BnbRefundHTLT ''bnb1bot'' (Some ''a'') (Inr (Some \<lparr>res_status = 200, res_result = [''hash'']\<rparr>)),
      Console (TxHash ''hash''),
      Sleep 3000]"

definition oneEachClients_v2 :: "unit clients" where
  "oneEachClients_v2 = chainClients_v2 [kavaSwapA] (noSwaps(''d1'' := [openSwap ''a'' 10])) noSwaps"

text \<open>What a cycle of the later revision does on that world, with \<open>limit = 1\<close>.\<close>

definition oneEachTrace_v2 :: "event list" where
  "oneEachTrace_v2 =
     [KavaGetSwaps 0 1 (Inr (Some [kavaSwapA])),
      KavaGetSwaps 1 1 (Inr (Some [])),
      Console (KavaCount 1),
      KavaLoadMetaData (Inr 40),
      Console (Refunding (Some ''hkb'')),
      KavaRefundSwap ''hkb'' 40 (Inr ''tx-hkb''),
      Console (TxHash ''tx-hkb''),
      Sleep 25000,
      BnbNodeInfo (Inr (Some 500)),
      BnbGetSwapByCreator ''d1'' 1 0 (Inr (Some [openSwap ''a'' 10])),
      BnbGetSwapByCreator ''d1'' 1 1 (Inr (Some [])),
      BnbNodeInfo (Inr (Some 500)),
      BnbGetSwapByRecipient ''d1'' 1 0 (Inr (Some [])),
      Console (BnbCount 1),
      Console (Refunding (Some ''a'')),
      BnbRefundHTLT ''bnb1bot'' (Some ''a'') (Inr (Some \<lparr>res_status = 200, res_result = [''hash'']\<rparr>)),
      Console (TxHash ''hash''),
      Sleep 5000]"

text \<open>The same, with a listing of the swaps created by \<open>d1\<close> that fails at offset 2.\<close>

definition flakyClients :: "unit clients" where
  "flakyClients =
     twoDeputyClients
       \<lparr>getSwapByCreator := (\<lambda>d lim off w.
           if d = ''d1'' \<and> off = 2 then (Inl (Error ''timeout''), w)
           else getSwapByCreator twoDeputyClients d lim off w)\<rparr>"

text \<open>The world of \<open>oneEachClients\<close> with a Kava rest-server that fails every listing query.\<close>

definition kavaDownClients :: "unit clients" where
  "kavaDownClients = oneEachClients\<lparr>getSwaps := (\<lambda>pg lim w. (Inl (Error ''timeout''), w))\<rparr>"

text \<open>
  Binance Chain holds no swap; listing by recipient fails, and a refund without a
  swap identifier is rejected.
\<close>

definition recipientDownClients :: "unit clients" where
  "recipientDownClients =
     (chainClients [] noSwaps noSwaps)
       \<lparr>getSwapByRecipient := (\<lambda>d lim off w. (Inl (Error ''timeout''), w)),
        refundHTLT := (\<lambda>a swapID w.
           case swapID of
             None \<Rightarrow> (Inl (Error ''swap id missing''), w)
           | Some i \<Rightarrow> (Inr (Some \<lparr>res_status = 200, res_result = [''hash'']\<rparr>), w))\<rparr>"

text \<open>
  Kava holds two expired swaps and rejects the refund of the first. Deputy \<open>d1\<close>
  created three expired swaps on Binance Chain: the refund of \<open>a\<close> throws, the refund
  of \<open>b\<close> is answered with status 500, the refund of \<open>c\<close> succeeds.
\<close>

definition rejectingClients :: "unit clients" where
  "rejectingClients =
     (chainClients [kavaSwapA, kavaSwapB]
        (noSwaps(''d1'' := [openSwap ''a'' 10, openSwap ''b'' 20, openSwap ''c'' 30])) noSwaps)
       \<lparr>refundSwap := (\<lambda>swapID q w.
           if swapID = ''hkb'' then (Inl (Error ''sequence mismatch''), w)
           else (Inr (''tx-'' @ swapID), w)),
        refundHTLT := (\<lambda>a swapID w.
           if swapID = Some ''a'' then (Inl (Error ''rejected''), w)
           else if swapID = Some ''b'' then (Inr (Some \<lparr>res_status = 500, res_result = []\<rparr>), w)
           else (Inr (Some \<lparr>res_status = 200, res_result = [''hash'']\<rparr>), w))\<rparr>"

definition rejectingClients_v2 :: "unit clients" where
  "rejectingClients_v2 =
     rejectingClients
       \<lparr>getSwaps := (\<lambda>off lim w. (Inr (Some (pageAt [kavaSwapA, kavaSwapB] lim off)), w))\<rparr>"

text \<open>
  What the submission loops do on that world, with \<open>ms\<close> the sleep of the revision:
  the rounds on Kava after the account sequence 40 was loaded, and the rounds on
  Binance Chain.
\<close>

definition rejectingKavaRounds :: "int \<Rightarrow> event list" where
  "rejectingKavaRounds ms =
     [Console (Refunding (Some ''hkb'')),
      KavaRefundSwap ''hkb'' 40 (Inl (Error ''sequence mismatch'')),
      Console (CouldNotRefund ''hkb''),
      Console (Exn (Error ''sequence mismatch'')),
      Sleep ms,
      Console (Refunding (Some ''gkb'')),
      KavaRefundSwap ''gkb'' 41 (Inr ''tx-gkb''),
      Console (TxHash ''tx-gkb''),
      Sleep ms]"

definition rejectingBnbRounds :: "int \<Rightarrow> event list" where
  "rejectingBnbRounds ms =
     [Console (Refunding (Some ''a'')),
      BnbRefundHTLT ''bnb1bot'' (Some ''a'') (Inl (Error ''rejected'')),
      Console (Exn (Error ''rejected'')),
      Sleep ms,
      Console (Refunding (Some ''b'')),
      BnbRefundHTLT ''bnb1bot'' (Some ''b'') (Inr (Some \<lparr>res_status = 500, res_result = []\<rparr>)),
      Sleep ms,
      Console (Refunding (Some ''c'')),
      BnbRefundHTLT ''bnb1bot'' (Some ''c'') (Inr (Some \<lparr>res_status = 200, res_result = [''hash'']\<rparr>)),
      Console (TxHash ''hash''),
      Sleep ms]"

text \<open>A Kava rest-server that lists one expired swap on the first page and fails on every later one.\<close>

definition secondPageDownClients :: "unit clients" where
  "secondPageDownClients =
     oneEachClients
       \<lparr>getSwaps := (\<lambda>pg lim w.
           if pg = 1 then (Inr (Some [kavaSwapA]), w) else (Inl (Error ''timeout''), w))\<rparr>"

section \<open>Facts about the numbers\<close>

lemma maxSafe_value: "maxSafe = 9007199254740992"
  by (simp add: maxSafe_def)

text \<open>Sums of magnitude up to \<open>2 ^ 53\<close> are exact.\<close>

lemma js_add_exact: "\<bar>a + b\<bar> \<le> maxSafe \<Longrightarrow> js_add a b = a + b"
  by (simp add: js_add_def roundToDouble_def)

text \<open>Beyond, they are not: at \<open>2 ^ 53\<close> adding 1 changes nothing.\<close>

lemma js_add_rounds: "js_add maxSafe 1 = maxSafe"
  by (simp add: js_add_def roundToDouble_def maxSafe_value bitLength.simps Let_def)

section \<open>Facts about the loops\<close>


lemma whileLoop_not_Continue:
  "whileLoop n body l s = Some (c, s') \<Longrightarrow> c \<noteq> Continue l'"
  by (induction n arbitrary: l s) (auto split: prod.splits ctl.splits)

lemma whileLoop_None_iff:
  "(whileLoop n body l s = None) = (loopReach n body l s \<noteq> None)"
  by (induction n arbitrary: l s) (auto split: prod.splits ctl.splits)

lemma whileLoop_mono:
  "whileLoop n body l s = Some r \<Longrightarrow> n \<le> m \<Longrightarrow> whileLoop m body l s = Some r"
proof (induction n arbitrary: l s m)
  case 0
  then show ?case by simp
next
  case (Suc n)
  then obtain m' where m: "m = Suc m'" "n \<le> m'" by (cases m) auto
  show ?case using Suc.prems(1) Suc.IH[OF _ m(2)] unfolding m(1)
    by (auto split: prod.splits ctl.splits)
qed

lemma whileLoop_last:
  assumes "whileLoop n body l s = Some (c, s')" and "P l s"
    and "\<And>l s l' s'. P l s \<Longrightarrow> body l s = (Continue l', s') \<Longrightarrow> P l' s'"
  shows "\<exists>l0 s0. P l0 s0 \<and> body l0 s0 = (c, s') \<and> (\<forall>l'. c \<noteq> Continue l')"
  using assms(1,2)
proof (induction n arbitrary: l s)
  case 0
  then show ?case by simp
next
  case (Suc n)
  show ?case
  proof (cases "\<exists>l1 s1. body l s = (Continue l1, s1)")
    case True
    then obtain l1 s1 where b: "body l s = (Continue l1, s1)" by blast
    with Suc.prems have "whileLoop n body l1 s1 = Some (c, s')" by simp
    moreover have "P l1 s1" using assms(3)[OF Suc.prems(2) b] .
    ultimately show ?thesis using Suc.IH by blast
  next
    case False
    with Suc.prems(1) have "body l s = (c, s')" "\<forall>l'. c \<noteq> Continue l'"
      by (auto split: prod.splits ctl.splits)
    with Suc.prems(2) show ?thesis by blast
  qed
qed

lemma loopReach_stop:
  "loopReach k body l s = Some (l', s') \<Longrightarrow> body l' s' = (c, s'') \<Longrightarrow> \<forall>x. c \<noteq> Continue x
   \<Longrightarrow> whileLoop (Suc k) body l s = Some (c, s'')"
proof (induction k arbitrary: l s)
  case 0
  then show ?case by (cases c) auto
next
  case (Suc k)
  from Suc.prems(1) obtain l1 s1 where b: "body l s = (Continue l1, s1)"
    and r: "loopReach k body l1 s1 = Some (l', s')"
    by (auto split: prod.splits ctl.splits)
  from Suc.IH[OF r Suc.prems(2,3)] b show ?case by simp
qed

lemma whileLoop_reach:
  "whileLoop n body l s = Some (c, s'') \<Longrightarrow>
   \<exists>k l' s'. k < n \<and> loopReach k body l s = Some (l', s') \<and> body l' s' = (c, s'')"
proof (induction n arbitrary: l s)
  case 0
  then show ?case by simp
next
  case (Suc n)
  show ?case
  proof (cases "\<exists>l1 s1. body l s = (Continue l1, s1)")
    case True
    then obtain l1 s1 where b: "body l s = (Continue l1, s1)" by blast
    with Suc.prems have "whileLoop n body l1 s1 = Some (c, s'')" by simp
    from Suc.IH[OF this] obtain k l' s' where "k < n" "loopReach k body l1 s1 = Some (l', s')"
      "body l' s' = (c, s'')" by blast
    with b have "Suc k < Suc n \<and> loopReach (Suc k) body l s = Some (l', s') \<and> body l' s' = (c, s'')"
      by simp
    then show ?thesis by blast
  next
    case False
    with Suc.prems(1) have "body l s = (c, s'')"
      by (auto split: prod.splits ctl.splits)
    then have "0 < Suc n \<and> loopReach 0 body l s = Some (l, s) \<and> body l s = (c, s'')" by simp
    then show ?thesis by blast
  qed
qed


lemma call_eq:
  "call f ev s = (fst (f (world s)),
     s\<lparr>world := snd (f (world s)), trace := trace s @ [ev (fst (f (world s)))]\<rparr>)"
  by (simp add: call_def split: prod.splits)

lemma kavaFetched_append: "kavaFetched (xs @ ys) = kavaFetched xs @ kavaFetched ys"
  by (induction xs rule: kavaFetched.induct) auto

lemma bnbFetched_append: "bnbFetched (xs @ ys) = bnbFetched xs @ bnbFetched ys"
  by (induction xs rule: bnbFetched.induct) auto

lemma newEvents_append: "trace s' = trace s @ es \<Longrightarrow> newEvents s s' = es"
  by (simp add: newEvents_def)

lemma kavaScanBody_Continue:
  "(\<exists>L'. fst (kavaScanBody c L s) = Continue L') = nonEmptyPage (fst (kavaQuery c (page L) s))"
  by (auto simp: kavaScanBody_def split: prod.splits sum.splits option.splits)

lemma kavaScanBody_v2_Continue:
  "(\<exists>L'. fst (kavaScanBody_v2 c L s) = Continue L') = nonEmptyPage (fst (kavaQuery_v2 c (offset L) s))"
  by (auto simp: kavaScanBody_v2_def split: prod.splits sum.splits option.splits)

lemma bnbScanBody_Continue:
  "(\<exists>L'. fst (bnbScanBody c i d L s) = Continue L') = nonEmptyPage (fst (bnbQuery c i d L s))"
  by (auto simp: bnbScanBody_def Let_def split: prod.splits sum.splits option.splits)

lemma bnbScanBody_v2_Continue:
  "(\<exists>L'. fst (bnbScanBody_v2 c i h d L s) = Continue L') = nonEmptyPage (fst (bnbQuery c i d L s))"
  by (auto simp: bnbScanBody_v2_def Let_def split: prod.splits sum.splits option.splits)

lemma terminates_iff:
  assumes "\<And>l s. (\<exists>l'. fst (body l s) = Continue l') = nonEmptyPage (answer l s)"
  shows "terminates body l s = pagesRunOut body answer l s"
proof
  assume "terminates body l s"
  then obtain n c s'' where "whileLoop n body l s = Some (c, s'')"
    by (auto simp: terminates_def)
  from whileLoop_reach[OF this] whileLoop_not_Continue[OF this]
  obtain k l' s' where "loopReach k body l s = Some (l', s')" "body l' s' = (c, s'')" "\<forall>x. c \<noteq> Continue x"
    by blast
  moreover then have "\<not> nonEmptyPage (answer l' s')" using assms[of l' s', symmetric] by simp
  ultimately show "pagesRunOut body answer l s" unfolding pagesRunOut_def by blast
next
  assume "pagesRunOut body answer l s"
  then obtain k l' s' where r: "loopReach k body l s = Some (l', s')" and "\<not> nonEmptyPage (answer l' s')"
    unfolding pagesRunOut_def by blast
  then have "\<forall>x. fst (body l' s') \<noteq> Continue x" using assms[of l' s'] by simp
  from loopReach_stop[OF r _ this, of "snd (body l' s')"]
  show "terminates body l s" unfolding terminates_def by (metis option.distinct(1) prod.collapse)
qed


lemma kavaScanBody_step:
  "kavaScanBody c L s = (r, s') \<Longrightarrow>
   self s' = self s \<and>
   (\<exists>es. trace s' = trace s @ es \<and>
      (case r of Continue L' \<Rightarrow> expiredSwaps L' = expiredSwaps L @ kavaFetched es
       | Break L' \<Rightarrow> expiredSwaps L' = expiredSwaps L @ kavaFetched es
       | _ \<Rightarrow> True))"
  by (auto simp: kavaScanBody_def kavaQuery_def call_eq console_def
      split: prod.splits sum.splits option.splits if_splits)

lemma kavaScanBody_v2_step:
  "kavaScanBody_v2 c L s = (r, s') \<Longrightarrow>
   self s' = self s \<and>
   (\<exists>es. trace s' = trace s @ es \<and>
      (case r of Continue L' \<Rightarrow> expiredSwaps_v2 L' = expiredSwaps_v2 L @ kavaFetched es
       | Break L' \<Rightarrow> expiredSwaps_v2 L' = expiredSwaps_v2 L @ kavaFetched es
       | _ \<Rightarrow> True))"
  by (auto simp: kavaScanBody_v2_def kavaQuery_v2_def call_eq console_def
      split: prod.splits sum.splits option.splits if_splits)

lemma bnbScanBody_step:
  "bnbScanBody c i d L s = (r, s') \<Longrightarrow>
   self s' = self s \<and>
   (\<exists>es. trace s' = trace s @ es \<and>
      (case r of Continue L' \<Rightarrow> openSwaps L' = openSwaps L @ filter (\<lambda>x. status x = 1) (bnbFetched es)
       | Break L' \<Rightarrow> openSwaps L' = openSwaps L @ filter (\<lambda>x. status x = 1) (bnbFetched es)
       | _ \<Rightarrow> True))"
  by (auto simp: bnbScanBody_def bnbQuery_def call_eq console_def advance_def Let_def
      split: prod.splits sum.splits option.splits if_splits)

lemma bnbScanBody_v2_step:
  "bnbScanBody_v2 c i h d L s = (r, s') \<Longrightarrow>
   self s' = self s \<and>
   (\<exists>es. trace s' = trace s @ es \<and>
      (case r of Continue L' \<Rightarrow> openSwaps L' = openSwaps L @ filter (refundable_v2 h) (bnbFetched es)
       | Break L' \<Rightarrow> openSwaps L' = openSwaps L @ filter (refundable_v2 h) (bnbFetched es)
       | Return L' \<Rightarrow> openSwaps L' = openSwaps L @ filter (refundable_v2 h) (bnbFetched es)
       | _ \<Rightarrow> True))"
  by (auto simp: bnbScanBody_v2_def bnbQuery_def call_eq console_def advance_def resetOffsets_def Let_def
      split: prod.splits sum.splits option.splits if_splits)


lemma kavaScan_collect:
  assumes "whileLoop n (kavaScanBody c) L s = Some (r, s')"
  shows "self s' = self s \<and> (\<exists>es. trace s' = trace s @ es \<and>
          (case r of Break L' \<Rightarrow> expiredSwaps L' = expiredSwaps L @ kavaFetched es | _ \<Rightarrow> True))"
proof -
  let ?P = "\<lambda>L1 s1. self s1 = self s \<and> (\<exists>es. trace s1 = trace s @ es \<and> expiredSwaps L1 = expiredSwaps L @ kavaFetched es)"
  have "?P L s" by simp
  moreover have "\<And>l s l' s'. ?P l s \<Longrightarrow> kavaScanBody c l s = (Continue l', s') \<Longrightarrow> ?P l' s'"
    by (drule kavaScanBody_step) (auto simp: kavaFetched_append)
  ultimately obtain L0 s0 where "?P L0 s0" and b: "kavaScanBody c L0 s0 = (r, s')"
    using whileLoop_last[OF assms, of ?P] by blast
  then show ?thesis using kavaScanBody_step[OF b]
    by (cases r) (auto simp: kavaFetched_append)
qed

lemma kavaScan_v2_collect:
  assumes "whileLoop n (kavaScanBody_v2 c) L s = Some (r, s')"
  shows "self s' = self s \<and> (\<exists>es. trace s' = trace s @ es \<and>
          (case r of Break L' \<Rightarrow> expiredSwaps_v2 L' = expiredSwaps_v2 L @ kavaFetched es | _ \<Rightarrow> True))"
proof -
  let ?P = "\<lambda>L1 s1. self s1 = self s \<and> (\<exists>es. trace s1 = trace s @ es \<and> expiredSwaps_v2 L1 = expiredSwaps_v2 L @ kavaFetched es)"
  have "?P L s" by simp
  moreover have "\<And>l s l' s'. ?P l s \<Longrightarrow> kavaScanBody_v2 c l s = (Continue l', s') \<Longrightarrow> ?P l' s'"
    by (drule kavaScanBody_v2_step) (auto simp: kavaFetched_append)
  ultimately obtain L0 s0 where "?P L0 s0" and b: "kavaScanBody_v2 c L0 s0 = (r, s')"
    using whileLoop_last[OF assms, of ?P] by blast
  then show ?thesis using kavaScanBody_v2_step[OF b]
    by (cases r) (auto simp: kavaFetched_append)
qed

lemma bnbScan_collect:
  assumes "whileLoop n (bnbScanBody c i d) L s = Some (r, s')"
  shows "self s' = self s \<and> (\<exists>es. trace s' = trace s @ es \<and>
          (case r of Break L' \<Rightarrow> openSwaps L' = openSwaps L @ filter (\<lambda>x. status x = 1) (bnbFetched es) | _ \<Rightarrow> True))"
proof -
  let ?P = "\<lambda>L1 s1. self s1 = self s \<and> (\<exists>es. trace s1 = trace s @ es \<and> openSwaps L1 = openSwaps L @ filter (\<lambda>x. status x = 1) (bnbFetched es))"
  have "?P L s" by simp
  moreover have "\<And>l s l' s'. ?P l s \<Longrightarrow> bnbScanBody c i d l s = (Continue l', s') \<Longrightarrow> ?P l' s'"
    by (drule bnbScanBody_step) (auto simp: bnbFetched_append)
  ultimately obtain L0 s0 where "?P L0 s0" and b: "bnbScanBody c i d L0 s0 = (r, s')"
    using whileLoop_last[OF assms, of ?P] by blast
  then show ?thesis using bnbScanBody_step[OF b]
    by (cases r) (auto simp: bnbFetched_append)
qed

lemma bnbScan_v2_collect:
  assumes "whileLoop n (bnbScanBody_v2 c i h d) L s = Some (r, s')"
  shows "self s' = self s \<and> (\<exists>es. trace s' = trace s @ es \<and>
          (case r of Break L' \<Rightarrow> openSwaps L' = openSwaps L @ filter (refundable_v2 h) (bnbFetched es)
           | Return L' \<Rightarrow> openSwaps L' = openSwaps L @ filter (refundable_v2 h) (bnbFetched es)
           | _ \<Rightarrow> True))"
proof -
  let ?P = "\<lambda>L1 s1. self s1 = self s \<and> (\<exists>es. trace s1 = trace s @ es \<and> openSwaps L1 = openSwaps L @ filter (refundable_v2 h) (bnbFetched es))"
  have "?P L s" by simp
  moreover have "\<And>l s l' s'. ?P l s \<Longrightarrow> bnbScanBody_v2 c i h d l s = (Continue l', s') \<Longrightarrow> ?P l' s'"
    by (drule bnbScanBody_v2_step) (auto simp: bnbFetched_append)
  ultimately obtain L0 s0 where "?P L0 s0" and b: "bnbScanBody_v2 c i h d L0 s0 = (r, s')"
    using whileLoop_last[OF assms, of ?P] by blast
  then show ?thesis using bnbScanBody_v2_step[OF b]
    by (cases r) (auto simp: bnbFetched_append)
qed


lemma loop_total:
  assumes r: "loopReach k body l s = Some (l', s')" and b: "body l' s' = (Break lf, s'')"
  shows "\<forall>n>k. whileLoop n body l s = Some (Break lf, s'')"
proof (intro allI impI)
  fix n assume "k < n"
  have "whileLoop (Suc k) body l s = Some (Break lf, s'')"
    using loopReach_stop[OF r b] by simp
  from whileLoop_mono[OF this, of n] \<open>k < n\<close> show "whileLoop n body l s = Some (Break lf, s'')" by simp
qed

lemma kava_loop_result:
  assumes r: "loopReach k (kavaScanBody c) K s = Some (K', s')"
    and e: "fst (kavaQuery c (page K') s') = Inr (Some [])"
  shows "\<exists>Kf s''. (\<forall>n>k. whileLoop n (kavaScanBody c) K s = Some (Break Kf, s'')) \<and>
           expiredSwaps Kf = expiredSwaps K @ kavaFetched (newEvents s s'')"
proof -
  from e have b: "kavaScanBody c K' s' = (Break K', snd (kavaQuery c (page K') s'))"
    by (auto simp: kavaScanBody_def split: prod.splits)
  from loop_total[OF r b] have t: "\<forall>n>k. whileLoop n (kavaScanBody c) K s = Some (Break K', snd (kavaQuery c (page K') s'))" .
  then have "whileLoop (Suc k) (kavaScanBody c) K s = Some (Break K', snd (kavaQuery c (page K') s'))" by (simp del: whileLoop.simps)
  from kavaScan_collect[OF this] have "expiredSwaps K' = expiredSwaps K @ kavaFetched (newEvents s (snd (kavaQuery c (page K') s')))"
    by (auto simp: newEvents_def)
  with t show ?thesis by blast
qed

lemma kava_v2_loop_result:
  assumes r: "loopReach k (kavaScanBody_v2 c) K s = Some (K', s')"
    and e: "fst (kavaQuery_v2 c (offset K') s') = Inr (Some [])"
  shows "\<exists>Kf s''. (\<forall>n>k. whileLoop n (kavaScanBody_v2 c) K s = Some (Break Kf, s'')) \<and>
           expiredSwaps_v2 Kf = expiredSwaps_v2 K @ kavaFetched (newEvents s s'')"
proof -
  from e have b: "kavaScanBody_v2 c K' s' = (Break K', snd (kavaQuery_v2 c (offset K') s'))"
    by (auto simp: kavaScanBody_v2_def split: prod.splits)
  from loop_total[OF r b] have t: "\<forall>n>k. whileLoop n (kavaScanBody_v2 c) K s = Some (Break K', snd (kavaQuery_v2 c (offset K') s'))" .
  then have "whileLoop (Suc k) (kavaScanBody_v2 c) K s = Some (Break K', snd (kavaQuery_v2 c (offset K') s'))" by (simp del: whileLoop.simps)
  from kavaScan_v2_collect[OF this] have "expiredSwaps_v2 K' = expiredSwaps_v2 K @ kavaFetched (newEvents s (snd (kavaQuery_v2 c (offset K') s')))"
    by (auto simp: newEvents_def)
  with t show ?thesis by blast
qed


lemmas example_defs = chainClients_def chainClients_v2_def startState_def openSwap_def pageAt_def kavaSwapA_def
lemmas scan_defs = kavaScanBody_def kavaScanBody_v2_def kavaQuery_def kavaQuery_v2_def
  bnbScanBody_def bnbScanBody_v2_def bnbQuery_def call_eq console_def advance_def resetOffsets_def
  js_add_def roundToDouble_def maxSafe_value




lemmas run_defs = getRefundableBinanceSwaps_def getRefundableBinanceSwaps_v2_def bnbScanDeputy_v2_def bnbLocalsInit_def
   getRefundableKavaSwaps_def getRefundableKavaSwaps_v2_def swapIDsOf_def refundable_v2_def js_le_def
   noSwaps_def

lemma bnbQueries_append: "bnbQueries (xs @ ys) = bnbQueries xs @ bnbQueries ys"
  by (induction xs rule: bnbQueries.induct) auto

lemma kavaSubmissions_append: "kavaSubmissions (xs @ ys) = kavaSubmissions xs @ kavaSubmissions ys"
  by (induction xs rule: kavaSubmissions.induct) auto

lemma bnbSubmissions_append: "bnbSubmissions (xs @ ys) = bnbSubmissions xs @ bnbSubmissions ys"
  by (induction xs rule: bnbSubmissions.induct) auto

lemma metaDataLoads_append: "metaDataLoads (xs @ ys) = metaDataLoads xs @ metaDataLoads ys"
  by (induction xs rule: metaDataLoads.induct) auto

lemma thrownBySubmissions_append:
  "thrownBySubmissions (xs @ ys) = thrownBySubmissions xs @ thrownBySubmissions ys"
  by (induction xs rule: thrownBySubmissions.induct) auto

lemma loggedExns_append: "loggedExns (xs @ ys) = loggedExns xs @ loggedExns ys"
  by (induction xs rule: loggedExns.induct) auto

lemma pacing_append: "pacing (xs @ ys) = pacing xs @ pacing ys"
  by (induction xs rule: pacing.induct) auto

lemmas proj_append = bnbQueries_append kavaSubmissions_append bnbSubmissions_append
  metaDataLoads_append thrownBySubmissions_append loggedExns_append pacing_append
  kavaFetched_append bnbFetched_append

lemma scanEvents_silent:
  "list_all isScanEvent es \<Longrightarrow>
   kavaSubmissions es = [] \<and> bnbSubmissions es = [] \<and> metaDataLoads es = [] \<and>
   pacing es = [] \<and> thrownBySubmissions es = [] \<and> loggedExns es = []"
proof (induction es)
  case Nil
  then show ?case by simp
next
  case (Cons e es)
  then have "isScanEvent e" "list_all isScanEvent es" by simp_all
  with Cons.IH show ?case by (cases e rule: isScanEvent.cases) auto
qed

lemma extendsI: "self s' = self s \<Longrightarrow> trace s' = trace s @ es \<Longrightarrow> Q es \<Longrightarrow> extends s s' Q"
  by (auto simp: extends_def)

lemma extends_newEvents: "extends s s' Q \<Longrightarrow> self s' = self s \<and> trace s' = trace s @ newEvents s s' \<and> Q (newEvents s s')"
  by (auto simp: extends_def newEvents_def)

lemma extends_trans:
  "extends s s1 Q1 \<Longrightarrow> extends s1 s2 Q2 \<Longrightarrow> (\<And>xs ys. Q1 xs \<Longrightarrow> Q2 ys \<Longrightarrow> Q (xs @ ys))
   \<Longrightarrow> extends s s2 Q"
  by (auto simp: extends_def)

lemma extends_weaken: "extends s s' Q \<Longrightarrow> (\<And>es. Q es \<Longrightarrow> Q' es) \<Longrightarrow> extends s s' Q'"
  by (auto simp: extends_def)

lemma extends_refl: "Q [] \<Longrightarrow> extends s s Q"
  by (auto simp: extends_def)

lemma whileLoop_extends:
  assumes step: "\<And>l s r s'. body l s = (r, s') \<Longrightarrow> extends s s' (list_all Q)"
    and run: "whileLoop n body l s = Some (r, s')"
  shows "extends s s' (list_all Q)"
  using run
proof (induction n arbitrary: l s)
  case 0
  then show ?case by simp
next
  case (Suc n)
  obtain r1 s1 where b: "body l s = (r1, s1)" by (cases "body l s")
  note e1 = step[OF b]
  show ?case
  proof (cases r1)
    case (Continue l1)
    with Suc.prems b have "whileLoop n body l1 s1 = Some (r, s')" by simp
    from extends_trans[OF e1 Suc.IH[OF this], where Q = "list_all Q"] show ?thesis by simp
  qed (use Suc.prems b e1 in auto)
qed

lemma kavaScanBody_scan: "kavaScanBody c L s = (r, s') \<Longrightarrow> extends s s' (list_all isScanEvent)"
  by (auto simp: extends_def kavaScanBody_def kavaQuery_def call_eq console_def
      split: prod.splits sum.splits option.splits if_splits)

lemma kavaScanBody_v2_scan: "kavaScanBody_v2 c L s = (r, s') \<Longrightarrow> extends s s' (list_all isScanEvent)"
  by (auto simp: extends_def kavaScanBody_v2_def kavaQuery_v2_def call_eq console_def
      split: prod.splits sum.splits option.splits if_splits)

lemma bnbScanBody_scan: "bnbScanBody c i d L s = (r, s') \<Longrightarrow> extends s s' (list_all isScanEvent)"
  by (auto simp: extends_def bnbScanBody_def bnbQuery_def call_eq console_def Let_def
      split: prod.splits sum.splits option.splits if_splits)

lemma bnbScanBody_v2_scan: "bnbScanBody_v2 c i h d L s = (r, s') \<Longrightarrow> extends s s' (list_all isScanEvent)"
  by (auto simp: extends_def bnbScanBody_v2_def bnbQuery_def call_eq console_def Let_def
      split: prod.splits sum.splits option.splits if_splits)

lemma getRefundableKavaSwaps_scan:
  "getRefundableKavaSwaps fuel c s = Some (r, s') \<Longrightarrow> extends s s' (list_all isScanEvent)"
  by (auto simp: getRefundableKavaSwaps_def split: option.splits prod.splits ctl.splits
      dest: whileLoop_extends[OF kavaScanBody_scan, rotated])

lemma getRefundableKavaSwaps_v2_scan:
  "getRefundableKavaSwaps_v2 fuel c s = Some (r, s') \<Longrightarrow> extends s s' (list_all isScanEvent)"
  by (auto simp: getRefundableKavaSwaps_v2_def split: option.splits prod.splits ctl.splits
      dest: whileLoop_extends[OF kavaScanBody_v2_scan, rotated])

lemma bnbScanDeputies_scan:
  "bnbScanDeputies fuel c i ds L s = Some (r, s') \<Longrightarrow> extends s s' (list_all isScanEvent)"
proof (induction ds arbitrary: L s)
  case Nil
  then show ?case by (auto intro: extends_refl)
next
  case (Cons d ds)
  from Cons.prems obtain r1 s1 where w: "whileLoop fuel (bnbScanBody c i d) L s = Some (r1, s1)"
    by (auto split: option.splits)
  note e1 = whileLoop_extends[OF bnbScanBody_scan w]
  show ?case
  proof (cases r1)
    case (Break L1)
    with Cons.prems w have "bnbScanDeputies fuel c i ds L1 s1 = Some (r, s')" by simp
    from extends_trans[OF e1 Cons.IH[OF this], where Q = "list_all isScanEvent"] show ?thesis by simp
  qed (use Cons.prems w e1 in auto)
qed

lemma getRefundableBinanceSwaps_scan:
  "getRefundableBinanceSwaps fuel c i s = Some (r, s') \<Longrightarrow> extends s s' (list_all isScanEvent)"
  by (auto simp: getRefundableBinanceSwaps_def split: option.splits prod.splits ctl.splits
      dest: bnbScanDeputies_scan)

lemma bnbScanDeputy_v2_scan:
  "bnbScanDeputy_v2 fuel c i h d L s = Some (r, s') \<Longrightarrow> extends s s' (list_all isScanEvent)"
  by (auto simp: bnbScanDeputy_v2_def split: option.splits prod.splits ctl.splits
      dest: whileLoop_extends[OF bnbScanBody_v2_scan, rotated])

lemma asyncForEach_extends:
  assumes step: "\<And>x l s r s'. callback x l s = Some (r, s') \<Longrightarrow> extends s s' (list_all Q)"
    and run: "asyncForEach xs callback l s = Some (r, s')"
  shows "extends s s' (list_all Q)"
  using run
proof (induction xs arbitrary: l s)
  case Nil
  then show ?case by (auto intro: extends_refl)
next
  case (Cons x xs)
  from Cons.prems obtain r1 s1 where w: "callback x l s = Some (r1, s1)"
    by (auto split: option.splits)
  note e1 = step[OF w]
  show ?case
  proof (cases r1)
    case (Inr l1)
    with Cons.prems w have "asyncForEach xs callback l1 s1 = Some (r, s')" by simp
    from extends_trans[OF e1 Cons.IH[OF this], where Q = "list_all Q"] show ?thesis by simp
  qed (use Cons.prems w e1 in auto)
qed

lemma getRefundableBinanceSwaps_v2_scan:
  assumes "getRefundableBinanceSwaps_v2 fuel c i s = Some (r, s')"
  shows "extends s s' (list_all isScanEvent)"
proof -
  obtain r1 s1 where n: "call (nodeInfo c) BnbNodeInfo s = (r1, s1)" by (cases "call (nodeInfo c) BnbNodeInfo s")
  then have e1: "extends s s1 (list_all isScanEvent)" by (auto simp: call_eq extends_def)
  show ?thesis
  proof (cases r1)
    case (Inl e)
    with assms n e1 show ?thesis by (auto simp: getRefundableBinanceSwaps_v2_def)
  next
    case (Inr h)
    with assms n obtain r2 where "asyncForEach (deputyAddresses (self s1)) (bnbScanDeputy_v2 fuel c i h) (bnbLocalsInit s) s1 = Some (r2, s')"
      by (auto simp: getRefundableBinanceSwaps_v2_def split: option.splits prod.splits sum.splits)
    from asyncForEach_extends[OF bnbScanDeputy_v2_scan this] have "extends s1 s' (list_all isScanEvent)" .
    from extends_trans[OF e1 this, where Q = "list_all isScanEvent"] show ?thesis by simp
  qed
qed

lemma kavaRefundTry_effect:
  "extends s (kavaRefundTry c x q s)
     (\<lambda>es. kavaSubmissions es = [(x, q)] \<and> metaDataLoads es = [] \<and> bnbSubmissions es = [] \<and>
           pacing es = [None] \<and> set (thrownBySubmissions es) \<subseteq> set (loggedExns es))"
  by (cases "fst (refundSwap c x q (world s))")
     (auto simp: kavaRefundTry_def extends_def call_eq console_def Let_def split: prod.splits)

lemma sleep_effect:
  "extends s (sleep ms s)
     (\<lambda>es. kavaSubmissions es = [] \<and> metaDataLoads es = [] \<and> bnbSubmissions es = [] \<and>
           pacing es = [Some ms] \<and> thrownBySubmissions es = [] \<and> loggedExns es = [])"
  by (simp add: extends_def sleep_def)

lemma kavaRound_effect:
  "extends s (sleep ms (kavaRefundTry c x q s))
     (\<lambda>es. kavaSubmissions es = [(x, q)] \<and> metaDataLoads es = [] \<and> bnbSubmissions es = [] \<and>
           pacing es = [None, Some ms] \<and> set (thrownBySubmissions es) \<subseteq> set (loggedExns es))"
  by (rule extends_trans[OF kavaRefundTry_effect sleep_effect]) (auto simp: proj_append)

lemma kavaRefundLoop_effect:
  "extends s (kavaRefundLoop c base i ids s)
     (\<lambda>es. map fst (kavaSubmissions es) = ids \<and>
           metaDataLoads es = [] \<and> bnbSubmissions es = [] \<and>
           pacing es = concat (replicate (length ids) [None, Some 7000]) \<and>
           set (thrownBySubmissions es) \<subseteq> set (loggedExns es))"
proof (induction ids arbitrary: i s)
  case Nil
  then show ?case by (simp add: extends_def)
next
  case (Cons x xs)
  show ?case
    unfolding kavaRefundLoop.simps Let_def
    by (rule extends_trans[OF kavaRound_effect Cons.IH]) (auto simp: proj_append)
qed

lemma kavaForEach_v2_effect:
  "\<exists>j s'. asyncForEach ids (kavaRefundOne_v2 c base) i s = Some (Inr j, s') \<and>
     extends s s'
     (\<lambda>es. map fst (kavaSubmissions es) = ids \<and>
           metaDataLoads es = [] \<and> bnbSubmissions es = [] \<and>
           pacing es = concat (replicate (length ids) [None, Some 25000]) \<and>
           set (thrownBySubmissions es) \<subseteq> set (loggedExns es))"
proof (induction ids arbitrary: i s)
  case Nil
  then show ?case by (simp add: extends_def)
next
  case (Cons x xs)
  let ?s1 = "sleep 25000 (kavaRefundTry c x (js_add base i) s)"
  from Cons.IH[of "js_add i 1" ?s1] obtain j s' where
    r: "asyncForEach xs (kavaRefundOne_v2 c base) (js_add i 1) ?s1 = Some (Inr j, s')"
    and e: "extends ?s1 s' (\<lambda>es. map fst (kavaSubmissions es) = xs \<and>
           metaDataLoads es = [] \<and> bnbSubmissions es = [] \<and>
           pacing es = concat (replicate (length xs) [None, Some 25000]) \<and>
           set (thrownBySubmissions es) \<subseteq> set (loggedExns es))" by blast
  have "asyncForEach (x # xs) (kavaRefundOne_v2 c base) i s = Some (Inr j, s')"
    using r by (simp add: kavaRefundOne_v2_def Let_def)
  moreover have "extends s s'
     (\<lambda>es. map fst (kavaSubmissions es) = x # xs \<and>
           metaDataLoads es = [] \<and> bnbSubmissions es = [] \<and>
           pacing es = concat (replicate (length (x # xs)) [None, Some 25000]) \<and>
           set (thrownBySubmissions es) \<subseteq> set (loggedExns es))"
    by (rule extends_trans[OF kavaRound_effect e]) (auto simp: proj_append)
  ultimately show ?case by blast
qed

lemma bnbRefundOne_effect:
  "extends s (bnbRefundOne c x s)
     (\<lambda>es. bnbSubmissions es = [x] \<and> metaDataLoads es = [] \<and> kavaSubmissions es = [] \<and>
           pacing es = [None] \<and> set (thrownBySubmissions es) \<subseteq> set (loggedExns es))"
  by (cases "fst (refundHTLT c (bnbChainAddress (self s)) x (world s))")
     (auto simp: bnbRefundOne_def extends_def call_eq console_def Let_def
       split: prod.splits option.splits list.splits)

lemma bnbRound_effect:
  "extends s (sleep ms (bnbRefundOne c x s))
     (\<lambda>es. bnbSubmissions es = [x] \<and> metaDataLoads es = [] \<and> kavaSubmissions es = [] \<and>
           pacing es = [None, Some ms] \<and> set (thrownBySubmissions es) \<subseteq> set (loggedExns es))"
  by (rule extends_trans[OF bnbRefundOne_effect sleep_effect]) (auto simp: proj_append)

lemma bnbRefundLoop_effect:
  "extends s (bnbRefundLoop c ids s)
     (\<lambda>es. bnbSubmissions es = ids \<and> metaDataLoads es = [] \<and> kavaSubmissions es = [] \<and>
           pacing es = concat (replicate (length ids) [None, Some 3000]) \<and>
           set (thrownBySubmissions es) \<subseteq> set (loggedExns es))"
proof (induction ids arbitrary: s)
  case Nil
  then show ?case by (simp add: extends_def)
next
  case (Cons x xs)
  show ?case
    unfolding bnbRefundLoop.simps
    by (rule extends_trans[OF bnbRound_effect Cons.IH]) (auto simp: proj_append)
qed

lemma bnbForEach_v2_effect:
  "\<exists>s'. asyncForEach ids (bnbRefundCallback_v2 c) () s = Some (Inr (), s') \<and>
     extends s s'
     (\<lambda>es. bnbSubmissions es = map Some ids \<and> metaDataLoads es = [] \<and> kavaSubmissions es = [] \<and>
           pacing es = concat (replicate (length ids) [None, Some 5000]) \<and>
           set (thrownBySubmissions es) \<subseteq> set (loggedExns es))"
proof (induction ids arbitrary: s)
  case Nil
  then show ?case by (simp add: extends_def)
next
  case (Cons x xs)
  let ?s1 = "sleep 5000 (bnbRefundOne c (Some x) s)"
  from Cons.IH[of ?s1] obtain s' where
    r: "asyncForEach xs (bnbRefundCallback_v2 c) () ?s1 = Some (Inr (), s')"
    and e: "extends ?s1 s' (\<lambda>es. bnbSubmissions es = map Some xs \<and> metaDataLoads es = [] \<and> kavaSubmissions es = [] \<and>
           pacing es = concat (replicate (length xs) [None, Some 5000]) \<and>
           set (thrownBySubmissions es) \<subseteq> set (loggedExns es))" by blast
  have "asyncForEach (x # xs) (bnbRefundCallback_v2 c) () s = Some (Inr (), s')"
    using r by (simp add: bnbRefundCallback_v2_def)
  moreover have "extends s s'
     (\<lambda>es. bnbSubmissions es = map Some (x # xs) \<and> metaDataLoads es = [] \<and> kavaSubmissions es = [] \<and>
           pacing es = concat (replicate (length (x # xs)) [None, Some 5000]) \<and>
           set (thrownBySubmissions es) \<subseteq> set (loggedExns es))"
    by (rule extends_trans[OF bnbRound_effect e]) (auto simp: proj_append)
  ultimately show ?case by blast
qed

lemma console_effect: "extends s (console l s) (\<lambda>es. es = [Console l])"
  by (simp add: extends_def console_def)

lemma call_effect: "call f ev s = (r, s') \<Longrightarrow> extends s s' (\<lambda>es. es = [ev r])"
  by (auto simp: extends_def call_eq)

lemma extends_scan_newEvents:
  "extends s s' (list_all isScanEvent) \<Longrightarrow>
   self s' = self s \<and> trace s' = trace s @ newEvents s s' \<and> list_all isScanEvent (newEvents s s')"
  by (rule extends_newEvents)

lemma refundKavaSwaps_shape:
  assumes scan: "getRefundableKavaSwaps fuel c s = Some (Inr (Some ids), s1)"
    and run: "refundKavaSwaps fuel c s = Some (r, s')"
  shows "\<exists>pre r0 post. self s' = self s \<and> trace s' = trace s @ pre @ KavaLoadMetaData r0 # post \<and>
     kavaSubmissions pre = [] \<and> metaDataLoads pre = [] \<and> pacing pre = [] \<and>
     bnbSubmissions pre = [] \<and> thrownBySubmissions pre = [] \<and>
     metaDataLoads post = [] \<and> bnbSubmissions post = [] \<and>
     set (thrownBySubmissions post) \<subseteq> set (loggedExns post) \<and>
     (case r0 of
        Inr base \<Rightarrow> map fst (kavaSubmissions post) = ids \<and>
                    length (kavaSubmissions post) = length ids \<and>
                    pacing post = concat (replicate (length ids) [None, Some 7000])
      | Inl e \<Rightarrow> kavaSubmissions post = [] \<and> pacing post = [])"
proof -
  from extends_scan_newEvents[OF getRefundableKavaSwaps_scan[OF scan]]
  obtain es1 where s1: "self s1 = self s" "trace s1 = trace s @ es1" "list_all isScanEvent es1" by blast
  let ?s2 = "console (KavaCount (length ids)) s1"
  obtain r0 s3 where l: "call (loadMetaData c) KavaLoadMetaData ?s2 = (r0, s3)"
    by (cases "call (loadMetaData c) KavaLoadMetaData ?s2")
  then have s3: "self s3 = self s" "trace s3 = trace s @ (es1 @ [Console (KavaCount (length ids))]) @ [KavaLoadMetaData r0]"
    using s1 by (auto simp: call_eq console_def)
  let ?pre = "es1 @ [Console (KavaCount (length ids))]"
  have pre: "kavaSubmissions ?pre = [] \<and> metaDataLoads ?pre = [] \<and> pacing ?pre = [] \<and>
     bnbSubmissions ?pre = [] \<and> thrownBySubmissions ?pre = []"
    using scanEvents_silent[OF s1(3)] by (simp add: proj_append)
  show ?thesis
  proof (cases r0)
    case (Inl e)
    with run scan l have "s' = console (Exn e) s3" by (simp add: refundKavaSwaps_def Let_def)
    with s3 have "self s' = self s" "trace s' = trace s @ ?pre @ KavaLoadMetaData r0 # [Console (Exn e)]"
      by (simp_all add: console_def)
    with pre Inl show ?thesis by (intro exI[of _ ?pre] exI[of _ r0] exI[of _ "[Console (Exn e)]"]) simp
  next
    case (Inr base)
    with run scan l have s': "s' = kavaRefundLoop c base 0 ids s3" by (simp add: refundKavaSwaps_def Let_def)
    from kavaRefundLoop_effect[of s3 c base 0 ids] obtain post where
      p: "self s' = self s3" "trace s' = trace s3 @ post"
      "map fst (kavaSubmissions post) = ids"
      "metaDataLoads post = []" "bnbSubmissions post = []"
      "pacing post = concat (replicate (length ids) [None, Some 7000])"
      "set (thrownBySubmissions post) \<subseteq> set (loggedExns post)"
      unfolding s' extends_def by auto
    with s3 have "self s' = self s" "trace s' = trace s @ ?pre @ KavaLoadMetaData r0 # post"
      by simp_all
    moreover from p(3) have "length (kavaSubmissions post) = length ids" by (metis length_map)
    ultimately show ?thesis using pre p Inr
      by (intro exI[of _ ?pre] exI[of _ r0] exI[of _ post]) simp
  qed
qed

lemma refundKavaSwaps_v2_shape:
  assumes scan: "getRefundableKavaSwaps_v2 fuel c s = Some (Inr ids, s1)"
    and run: "refundKavaSwaps_v2 fuel c s = Some (r, s')"
  shows "\<exists>pre r0 post. self s' = self s \<and> trace s' = trace s @ pre @ KavaLoadMetaData r0 # post \<and>
     kavaSubmissions pre = [] \<and> metaDataLoads pre = [] \<and> pacing pre = [] \<and>
     bnbSubmissions pre = [] \<and> thrownBySubmissions pre = [] \<and>
     metaDataLoads post = [] \<and> bnbSubmissions post = [] \<and>
     set (thrownBySubmissions post) \<subseteq> set (loggedExns post) \<and>
     (case r0 of
        Inr base \<Rightarrow> map fst (kavaSubmissions post) = ids \<and>
                    length (kavaSubmissions post) = length ids \<and>
                    pacing post = concat (replicate (length ids) [None, Some 25000])
      | Inl e \<Rightarrow> kavaSubmissions post = [] \<and> pacing post = [])"
proof -
  from extends_scan_newEvents[OF getRefundableKavaSwaps_v2_scan[OF scan]]
  obtain es1 where s1: "self s1 = self s" "trace s1 = trace s @ es1" "list_all isScanEvent es1" by blast
  let ?s2 = "console (KavaCount (length ids)) s1"
  obtain r0 s3 where l: "call (loadMetaData c) KavaLoadMetaData ?s2 = (r0, s3)"
    by (cases "call (loadMetaData c) KavaLoadMetaData ?s2")
  then have s3: "self s3 = self s" "trace s3 = trace s @ (es1 @ [Console (KavaCount (length ids))]) @ [KavaLoadMetaData r0]"
    using s1 by (auto simp: call_eq console_def)
  let ?pre = "es1 @ [Console (KavaCount (length ids))]"
  have pre: "kavaSubmissions ?pre = [] \<and> metaDataLoads ?pre = [] \<and> pacing ?pre = [] \<and>
     bnbSubmissions ?pre = [] \<and> thrownBySubmissions ?pre = []"
    using scanEvents_silent[OF s1(3)] by (simp add: proj_append)
  show ?thesis
  proof (cases r0)
    case (Inl e)
    with run scan l have "s' = console (Exn e) s3" by (simp add: refundKavaSwaps_v2_def Let_def)
    with s3 have "self s' = self s" "trace s' = trace s @ ?pre @ KavaLoadMetaData r0 # [Console (Exn e)]"
      by (simp_all add: console_def)
    with pre Inl show ?thesis by (intro exI[of _ ?pre] exI[of _ r0] exI[of _ "[Console (Exn e)]"]) simp
  next
    case (Inr base)
    from kavaForEach_v2_effect[of ids c base 0 s3] obtain j sf post where
      f: "asyncForEach ids (kavaRefundOne_v2 c base) 0 s3 = Some (Inr j, sf)" and
      p: "self sf = self s3" "trace sf = trace s3 @ post"
      "map fst (kavaSubmissions post) = ids"
      "metaDataLoads post = []" "bnbSubmissions post = []"
      "pacing post = concat (replicate (length ids) [None, Some 25000])"
      "set (thrownBySubmissions post) \<subseteq> set (loggedExns post)"
      unfolding extends_def by auto
    from run scan l Inr f have s': "s' = sf" by (simp add: refundKavaSwaps_v2_def Let_def)
    with s3 p have "self s' = self s" "trace s' = trace s @ ?pre @ KavaLoadMetaData r0 # post"
      by simp_all
    moreover from p(3) have "length (kavaSubmissions post) = length ids" by (metis length_map)
    ultimately show ?thesis using pre p Inr
      by (intro exI[of _ ?pre] exI[of _ r0] exI[of _ post]) simp
  qed
qed

lemmas refund_defs = refundSwaps_def refundSwaps_v2_def refundKavaSwaps_def refundKavaSwaps_v2_def
  refundBinanceChainSwaps_def refundBinanceChainSwaps_v2_def kavaRefundTry_def kavaRefundOne_v2_def
  bnbRefundOne_def bnbRefundCallback_v2_def js_concat_def sleep_def Let_def
  twoKavaClients_def twoKavaClients_v2_def kavaSwapB_def twoDeputyClients_def oneSwapClients_def

lemma refundKavaSwaps_effect:
  assumes run: "refundKavaSwaps fuel c s = Some (r, s')"
  shows "extends s s' (\<lambda>es.
      pacing es = concat (replicate (length (kavaSubmissions es)) [None, Some 7000]) \<and>
      bnbSubmissions es = [] \<and> set (thrownBySubmissions es) \<subseteq> set (loggedExns es))"
proof -
  from run obtain r1 s1 where scan: "getRefundableKavaSwaps fuel c s = Some (r1, s1)"
    by (auto simp: refundKavaSwaps_def split: option.splits)
  note e1 = getRefundableKavaSwaps_scan[OF scan]
  show ?thesis
  proof (cases "\<exists>ids. r1 = Inr (Some ids)")
    case True
    then obtain ids where "r1 = Inr (Some ids)" by blast
    from refundKavaSwaps_shape[OF scan[unfolded this] run] obtain pre r0 post where
      p: "self s' = self s" "trace s' = trace s @ pre @ KavaLoadMetaData r0 # post"
      "kavaSubmissions pre = []" "pacing pre = []" "bnbSubmissions pre = []" "thrownBySubmissions pre = []"
      "bnbSubmissions post = []" "set (thrownBySubmissions post) \<subseteq> set (loggedExns post)"
      "case r0 of
        Inr base \<Rightarrow> map fst (kavaSubmissions post) = ids \<and>
                    length (kavaSubmissions post) = length ids \<and>
                    pacing post = concat (replicate (length ids) [None, Some 7000])
      | Inl e \<Rightarrow> kavaSubmissions post = [] \<and> pacing post = []" by blast
    show ?thesis
      by (rule extendsI[OF p(1,2)]) (use p(3-) in \<open>auto simp: proj_append split: sum.splits\<close>)
  next
    case False
    with run scan have "s' = s1"
      by (auto simp: refundKavaSwaps_def split: sum.splits option.splits)
    with e1 show ?thesis by (auto simp: extends_def dest: scanEvents_silent)
  qed
qed

lemma refundKavaSwaps_v2_effect:
  assumes run: "refundKavaSwaps_v2 fuel c s = Some (r, s')"
  shows "extends s s' (\<lambda>es.
      pacing es = concat (replicate (length (kavaSubmissions es)) [None, Some 25000]) \<and>
      bnbSubmissions es = [] \<and> set (thrownBySubmissions es) \<subseteq> set (loggedExns es))"
proof -
  from run obtain r1 s1 where scan: "getRefundableKavaSwaps_v2 fuel c s = Some (r1, s1)"
    by (auto simp: refundKavaSwaps_v2_def split: option.splits)
  note e1 = getRefundableKavaSwaps_v2_scan[OF scan]
  show ?thesis
  proof (cases r1)
    case (Inr ids)
    from refundKavaSwaps_v2_shape[OF scan[unfolded this] run] obtain pre r0 post where
      p: "self s' = self s" "trace s' = trace s @ pre @ KavaLoadMetaData r0 # post"
      "kavaSubmissions pre = []" "pacing pre = []" "bnbSubmissions pre = []" "thrownBySubmissions pre = []"
      "bnbSubmissions post = []" "set (thrownBySubmissions post) \<subseteq> set (loggedExns post)"
      "case r0 of
        Inr base \<Rightarrow> map fst (kavaSubmissions post) = ids \<and>
                    length (kavaSubmissions post) = length ids \<and>
                    pacing post = concat (replicate (length ids) [None, Some 25000])
      | Inl e \<Rightarrow> kavaSubmissions post = [] \<and> pacing post = []" by blast
    show ?thesis
      by (rule extendsI[OF p(1,2)]) (use p(3-) in \<open>auto simp: proj_append split: sum.splits\<close>)
  next
    case (Inl e)
    with run scan have "s' = s1"
      by (auto simp: refundKavaSwaps_v2_def split: sum.splits option.splits)
    with e1 show ?thesis by (auto simp: extends_def dest: scanEvents_silent)
  qed
qed

lemma refundBinanceChainSwaps_effect:
  assumes run: "refundBinanceChainSwaps fuel c s = Some (r, s')"
  shows "extends s s' (\<lambda>es.
      pacing es = concat (replicate (length (bnbSubmissions es)) [None, Some 3000]) \<and>
      kavaSubmissions es = [] \<and> metaDataLoads es = [] \<and>
      set (thrownBySubmissions es) \<subseteq> set (loggedExns es) \<and>
      (\<forall>inc out s1 s2. getRefundableBinanceSwaps fuel c True s = Some (Inr (Some inc), s1) \<and>
           getRefundableBinanceSwaps fuel c False s1 = Some (Inr out, s2)
           \<longrightarrow> bnbSubmissions es = js_concat inc out))"
proof -
  let ?Q = "\<lambda>es. kavaSubmissions es = [] \<and> bnbSubmissions es = [] \<and> metaDataLoads es = [] \<and>
   pacing es = [] \<and> thrownBySubmissions es = [] \<and> loggedExns es = []"
  from run obtain r1 s1 where scan1: "getRefundableBinanceSwaps fuel c True s = Some (r1, s1)"
    by (auto simp: refundBinanceChainSwaps_def split: option.splits)
  have e1: "extends s s1 ?Q"
    by (rule extends_weaken[OF getRefundableBinanceSwaps_scan[OF scan1]]) (rule scanEvents_silent)
  show ?thesis
  proof (cases r1)
    case (Inl e)
    with run scan1 have "s' = s1" by (simp add: refundBinanceChainSwaps_def)
    with e1 scan1 Inl show ?thesis by (auto simp: extends_def)
  next
    case (Inr incomingSwaps)
    with run scan1 obtain r2 s2 where scan2: "getRefundableBinanceSwaps fuel c False s1 = Some (r2, s2)"
      by (auto simp: refundBinanceChainSwaps_def split: option.splits)
    have e2: "extends s1 s2 ?Q"
      by (rule extends_weaken[OF getRefundableBinanceSwaps_scan[OF scan2]]) (rule scanEvents_silent)
    have e12: "extends s s2 ?Q"
      by (rule extends_trans[OF e1 e2]) (simp add: proj_append)
    show ?thesis
    proof (cases "\<exists>inc out. incomingSwaps = Some inc \<and> r2 = Inr out")
      case False
      with run scan1 scan2 Inr have "s' = s2"
        by (auto simp: refundBinanceChainSwaps_def split: sum.splits option.splits)
      with e12 scan1 scan2 Inr False show ?thesis by (auto simp: extends_def)
    next
      case True
      then obtain inc out where io: "incomingSwaps = Some inc" "r2 = Inr out" by blast
      let ?ids = "js_concat inc out"
      let ?s3 = "console (BnbCount (length ?ids)) s2"
      from run scan1 scan2 Inr io have s': "s' = bnbRefundLoop c ?ids ?s3"
        by (simp add: refundBinanceChainSwaps_def Let_def)
      have e3: "extends s2 ?s3 ?Q" by (simp add: extends_def console_def)
      have e13: "extends s ?s3 ?Q"
        by (rule extends_trans[OF e12 e3]) (simp add: proj_append)
      show ?thesis unfolding s'
        by (rule extends_trans[OF e13 bnbRefundLoop_effect])
           (use scan1 scan2 Inr io in \<open>auto simp: proj_append\<close>)
    qed
  qed
qed

lemma refundBinanceChainSwaps_v2_effect:
  assumes run: "refundBinanceChainSwaps_v2 fuel c s = Some (r, s')"
  shows "extends s s' (\<lambda>es.
      pacing es = concat (replicate (length (bnbSubmissions es)) [None, Some 5000]) \<and>
      kavaSubmissions es = [] \<and> metaDataLoads es = [] \<and>
      set (thrownBySubmissions es) \<subseteq> set (loggedExns es) \<and>
      (\<forall>inc out s1 s2. getRefundableBinanceSwaps_v2 fuel c True s = Some (Inr inc, s1) \<and>
           getRefundableBinanceSwaps_v2 fuel c False s1 = Some (Inr out, s2)
           \<longrightarrow> bnbSubmissions es = map Some (inc @ out)))"
proof -
  let ?Q = "\<lambda>es. kavaSubmissions es = [] \<and> bnbSubmissions es = [] \<and> metaDataLoads es = [] \<and>
   pacing es = [] \<and> thrownBySubmissions es = [] \<and> loggedExns es = []"
  from run obtain r1 s1 where scan1: "getRefundableBinanceSwaps_v2 fuel c True s = Some (r1, s1)"
    by (auto simp: refundBinanceChainSwaps_v2_def split: option.splits)
  have e1: "extends s s1 ?Q"
    by (rule extends_weaken[OF getRefundableBinanceSwaps_v2_scan[OF scan1]]) (rule scanEvents_silent)
  show ?thesis
  proof (cases r1)
    case (Inl e)
    with run scan1 have "s' = s1" by (simp add: refundBinanceChainSwaps_v2_def)
    with e1 scan1 Inl show ?thesis by (auto simp: extends_def)
  next
    case (Inr inc)
    with run scan1 obtain r2 s2 where scan2: "getRefundableBinanceSwaps_v2 fuel c False s1 = Some (r2, s2)"
      by (auto simp: refundBinanceChainSwaps_v2_def split: option.splits)
    have e2: "extends s1 s2 ?Q"
      by (rule extends_weaken[OF getRefundableBinanceSwaps_v2_scan[OF scan2]]) (rule scanEvents_silent)
    have e12: "extends s s2 ?Q"
      by (rule extends_trans[OF e1 e2]) (simp add: proj_append)
    show ?thesis
    proof (cases r2)
      case (Inl e)
      with run scan1 scan2 Inr have "s' = s2"
        by (auto simp: refundBinanceChainSwaps_v2_def split: sum.splits option.splits)
      with e12 scan1 scan2 Inr Inl show ?thesis by (auto simp: extends_def)
    next
      case out: (Inr out)
      let ?ids = "inc @ out"
      let ?s3 = "console (BnbCount (length ?ids)) s2"
      from bnbForEach_v2_effect[of ?ids c ?s3] obtain sf where
        f: "asyncForEach ?ids (bnbRefundCallback_v2 c) () ?s3 = Some (Inr (), sf)"
        and ef: "extends ?s3 sf (\<lambda>es. bnbSubmissions es = map Some ?ids \<and> metaDataLoads es = [] \<and> kavaSubmissions es = [] \<and>
           pacing es = concat (replicate (length ?ids) [None, Some 5000]) \<and>
           set (thrownBySubmissions es) \<subseteq> set (loggedExns es))" by blast
      from run scan1 scan2 Inr out f have s': "s' = sf"
        by (simp add: refundBinanceChainSwaps_v2_def Let_def)
      have e3: "extends s2 ?s3 ?Q" by (simp add: extends_def console_def)
      have e13: "extends s ?s3 ?Q"
        by (rule extends_trans[OF e12 e3]) (simp add: proj_append)
      show ?thesis unfolding s'
        by (rule extends_trans[OF e13 ef])
           (use scan1 scan2 Inr out in \<open>auto simp: proj_append\<close>)
    qed
  qed
qed

lemma refundSwaps_self:
  "refundSwaps fuel c s = Some (r, s') \<Longrightarrow> self s' = self s"
  by (auto simp: refundSwaps_def extends_def split: option.splits sum.splits
      dest!: refundKavaSwaps_effect refundBinanceChainSwaps_effect)

lemma refundSwaps_v2_self:
  "refundSwaps_v2 fuel c s = Some (r, s') \<Longrightarrow> self s' = self s"
  by (auto simp: refundSwaps_v2_def extends_def split: option.splits sum.splits
      dest!: refundKavaSwaps_v2_effect refundBinanceChainSwaps_v2_effect)

lemmas more_defs = noMetaDataClients_def oneEachClients_def oneEachClients_v2_def

lemma extends_newEventsD: "extends s s' Q \<Longrightarrow> Q (newEvents s s')"
  by (auto simp: extends_def newEvents_def)

lemmas eval_defs = run_defs scan_defs refund_defs example_defs more_defs eval_nat_numeral

lemma refundSwaps_oneEach:
  "refundSwaps 2 oneEachClients (startState [''d1''] 1)
     = Some (Inr (), (startState [''d1''] 1)\<lparr>trace := oneEachTrace\<rparr>)"
  by (simp add: eval_defs oneEachTrace_def)

lemma refundSwaps_v2_oneEach:
  "refundSwaps_v2 2 oneEachClients_v2 (startState [''d1''] 1)
     = Some (Inr (), (startState [''d1''] 1)\<lparr>trace := oneEachTrace_v2\<rparr>)"
  by (simp add: eval_defs oneEachTrace_v2_def)

lemma refundKavaSwaps_oneEach:
  "refundKavaSwaps 2 oneEachClients (startState [''d1''] 1)
     = Some (Inr (), (startState [''d1''] 1)\<lparr>trace := take 8 oneEachTrace\<rparr>)"
  "getRefundableKavaSwaps 2 oneEachClients (startState [''d1''] 1)
     = Some (Inr (Some [''hkb'']), (startState [''d1''] 1)\<lparr>trace := take 2 oneEachTrace\<rparr>)"
  by (simp_all add: eval_defs oneEachTrace_def)

lemma refundKavaSwaps_v2_oneEach:
  "refundKavaSwaps_v2 2 oneEachClients_v2 (startState [''d1''] 1)
     = Some (Inr (), (startState [''d1''] 1)\<lparr>trace := take 8 oneEachTrace_v2\<rparr>)"
  "getRefundableKavaSwaps_v2 2 oneEachClients_v2 (startState [''d1''] 1)
     = Some (Inr [''hkb''], (startState [''d1''] 1)\<lparr>trace := take 2 oneEachTrace_v2\<rparr>)"
  by (simp_all add: eval_defs oneEachTrace_v2_def)

lemma refundBinanceChainSwaps_oneEach:
  "refundBinanceChainSwaps 2 oneEachClients (startState [''d1''] 1)
     = Some (Inr (), (startState [''d1''] 1)\<lparr>trace := drop 8 oneEachTrace\<rparr>)"
  "getRefundableBinanceSwaps 2 oneEachClients True (startState [''d1''] 1)
     = Some (Inr (Some [''a'']), (startState [''d1''] 1)\<lparr>trace := take 2 (drop 8 oneEachTrace)\<rparr>)"
  "getRefundableBinanceSwaps 2 oneEachClients False ((startState [''d1''] 1)\<lparr>trace := take 2 (drop 8 oneEachTrace)\<rparr>)
     = Some (Inr (Some []), (startState [''d1''] 1)\<lparr>trace := take 3 (drop 8 oneEachTrace)\<rparr>)"
  by (simp_all add: eval_defs oneEachTrace_def)

lemma refundBinanceChainSwaps_v2_oneEach:
  "refundBinanceChainSwaps_v2 2 oneEachClients_v2 (startState [''d1''] 1)
     = Some (Inr (), (startState [''d1''] 1)\<lparr>trace := drop 8 oneEachTrace_v2\<rparr>)"
  "getRefundableBinanceSwaps_v2 2 oneEachClients_v2 True (startState [''d1''] 1)
     = Some (Inr [''a''], (startState [''d1''] 1)\<lparr>trace := take 3 (drop 8 oneEachTrace_v2)\<rparr>)"
  "getRefundableBinanceSwaps_v2 2 oneEachClients_v2 False ((startState [''d1''] 1)\<lparr>trace := take 3 (drop 8 oneEachTrace_v2)\<rparr>)
     = Some (Inr [], (startState [''d1''] 1)\<lparr>trace := take 5 (drop 8 oneEachTrace_v2)\<rparr>)"
  by (simp_all add: eval_defs oneEachTrace_v2_def)

lemma bnbQueries_Cons: "bnbQueries (e # es) = bnbQueries [e] @ bnbQueries es"
  by (metis bnbQueries_append append_Cons append_Nil)

lemma bnbQuery_effect:
  "bnbQuery c i d L s = (r, s') \<Longrightarrow>
   self s' = self s \<and> (\<exists>e. trace s' = trace s @ [e] \<and> bnbQueries [e] = [(d, offsetOf i L)])"
  by (auto simp: bnbQuery_def call_eq offsetOf_def split: if_splits)

lemma bnbScanBody_offsets:
  assumes "bnbScanBody c i d L s = (r, s')"
  shows "self s' = self s \<and>
   (\<exists>es. trace s' = trace s @ es \<and> (\<exists>qs. bnbQueries es = (d, offsetOf i L) # qs))"
proof -
  obtain r0 s0 where q: "bnbQuery c i d L s = (r0, s0)" by (cases "bnbQuery c i d L s")
  from bnbQuery_effect[OF q] obtain e where
    e: "self s0 = self s" "trace s0 = trace s @ [e]" "bnbQueries [e] = [(d, offsetOf i L)]"
    by blast
  have c: "\<And>es. bnbQueries (e # es) = (d, offsetOf i L) # bnbQueries es"
    by (subst bnbQueries_Cons, simp add: e(3))
  from assms q e show ?thesis
    by (auto simp: bnbScanBody_def console_def c Let_def split: sum.splits option.splits if_splits)
qed

lemma bnbScanBody_v2_offsets:
  assumes "bnbScanBody_v2 c i h d L s = (r, s')"
  shows "self s' = self s \<and>
   (\<exists>es. trace s' = trace s @ es \<and>
      (\<exists>qs. bnbQueries es = (d, offsetOf i L) # qs) \<and>
      (case r of
         Break L' \<Rightarrow> loc_offsetIncoming L' = offsetIncoming (self s) \<and>
                     loc_offsetOutgoing L' = offsetOutgoing (self s)
       | _ \<Rightarrow> True))"
proof -
  obtain r0 s0 where q: "bnbQuery c i d L s = (r0, s0)" by (cases "bnbQuery c i d L s")
  from bnbQuery_effect[OF q] obtain e where
    e: "self s0 = self s" "trace s0 = trace s @ [e]" "bnbQueries [e] = [(d, offsetOf i L)]"
    by blast
  have c: "\<And>es. bnbQueries (e # es) = (d, offsetOf i L) # bnbQueries es"
    by (subst bnbQueries_Cons, simp add: e(3))
  from assms q e show ?thesis
    by (auto simp: bnbScanBody_v2_def console_def c Let_def resetOffsets_def
        split: sum.splits option.splits if_splits)
qed

lemma bnbLoop_offsets:
  "whileLoop n (bnbScanBody c i d) L s = Some (r, s') \<Longrightarrow>
   self s' = self s \<and>
   (\<exists>es. trace s' = trace s @ es \<and> (\<exists>qs. bnbQueries es = (d, offsetOf i L) # qs))"
proof (induction n arbitrary: L s)
  case 0
  then show ?case by simp
next
  case (Suc n)
  obtain r1 s1 where b: "bnbScanBody c i d L s = (r1, s1)" by (cases "bnbScanBody c i d L s")
  from bnbScanBody_offsets[OF b] obtain es1 qs1 where
    e1: "self s1 = self s" "trace s1 = trace s @ es1" "bnbQueries es1 = (d, offsetOf i L) # qs1"
    by blast
  show ?case
  proof (cases r1)
    case (Continue L1)
    with Suc.prems b have "whileLoop n (bnbScanBody c i d) L1 s1 = Some (r, s')" by simp
    from Suc.IH[OF this] obtain es2 where
      e2: "self s' = self s1" "trace s' = trace s1 @ es2" by blast
    have "self s' = self s" using e1 e2 by simp
    moreover have "trace s' = trace s @ (es1 @ es2)" using e1 e2 by simp
    moreover have "\<exists>qs. bnbQueries (es1 @ es2) = (d, offsetOf i L) # qs"
      using e1(3) by (simp add: proj_append)
    ultimately show ?thesis by blast
  next
    case (Break L1)
    with Suc.prems b have "r = r1" "s' = s1" by simp_all
    with e1 show ?thesis by auto
  next
    case (Return x)
    with Suc.prems b have "r = r1" "s' = s1" by simp_all
    with e1 show ?thesis by auto
  next
    case (Throw x)
    with Suc.prems b have "r = r1" "s' = s1" by simp_all
    with e1 show ?thesis by auto
  qed
qed

lemma bnbLoop_v2_offsets:
  "whileLoop n (bnbScanBody_v2 c i h d) L s = Some (r, s') \<Longrightarrow>
   self s' = self s \<and>
   (\<exists>es. trace s' = trace s @ es \<and>
      (\<exists>qs. bnbQueries es = (d, offsetOf i L) # qs) \<and>
      (case r of
         Break L' \<Rightarrow> loc_offsetIncoming L' = offsetIncoming (self s) \<and>
                     loc_offsetOutgoing L' = offsetOutgoing (self s)
       | _ \<Rightarrow> True))"
proof (induction n arbitrary: L s)
  case 0
  then show ?case by simp
next
  case (Suc n)
  obtain r1 s1 where b: "bnbScanBody_v2 c i h d L s = (r1, s1)" by (cases "bnbScanBody_v2 c i h d L s")
  from bnbScanBody_v2_offsets[OF b] obtain es1 qs1 where
    e1: "self s1 = self s" "trace s1 = trace s @ es1" "bnbQueries es1 = (d, offsetOf i L) # qs1"
    "case r1 of
         Break L' \<Rightarrow> loc_offsetIncoming L' = offsetIncoming (self s) \<and>
                     loc_offsetOutgoing L' = offsetOutgoing (self s)
       | _ \<Rightarrow> True" by blast
  show ?case
  proof (cases r1)
    case (Continue L1)
    with Suc.prems b have "whileLoop n (bnbScanBody_v2 c i h d) L1 s1 = Some (r, s')" by simp
    from Suc.IH[OF this] obtain es2 where
      e2: "self s' = self s1" "trace s' = trace s1 @ es2"
      "case r of
         Break L' \<Rightarrow> loc_offsetIncoming L' = offsetIncoming (self s1) \<and>
                     loc_offsetOutgoing L' = offsetOutgoing (self s1)
       | _ \<Rightarrow> True" by blast
    have "self s' = self s" using e1 e2 by simp
    moreover have "trace s' = trace s @ (es1 @ es2)" using e1 e2 by simp
    moreover have "\<exists>qs. bnbQueries (es1 @ es2) = (d, offsetOf i L) # qs"
      using e1(3) by (simp add: proj_append)
    moreover have "case r of
         Break L' \<Rightarrow> loc_offsetIncoming L' = offsetIncoming (self s) \<and>
                     loc_offsetOutgoing L' = offsetOutgoing (self s)
       | _ \<Rightarrow> True"
      using e1(1) e2(3) by (cases r) simp_all
    ultimately show ?thesis by blast
  next
    case (Break L1)
    with Suc.prems b have "r = r1" "s' = s1" by simp_all
    with e1 Break show ?thesis by auto
  next
    case (Return x)
    with Suc.prems b have "r = r1" "s' = s1" by simp_all
    with e1 Return show ?thesis by auto
  next
    case (Throw x)
    with Suc.prems b have "r = r1" "s' = s1" by simp_all
    with e1 Throw show ?thesis by auto
  qed
qed

lemma bnbScanDeputies_first:
  assumes "bnbScanDeputies fuel c i (d # ds) L s = Some (r, s')"
  shows "\<exists>qs. bnbQueries (newEvents s s') = (d, offsetOf i L) # qs"
proof -
  from assms obtain r1 s1 where w: "whileLoop fuel (bnbScanBody c i d) L s = Some (r1, s1)"
    by (auto split: option.splits)
  from bnbLoop_offsets[OF w] obtain es1 qs1 where
    e1: "trace s1 = trace s @ es1" "bnbQueries es1 = (d, offsetOf i L) # qs1" by blast
  have "\<exists>es2. trace s' = trace s1 @ es2"
  proof (cases r1)
    case (Break L1)
    with assms w have "bnbScanDeputies fuel c i ds L1 s1 = Some (r, s')" by simp
    from bnbScanDeputies_scan[OF this] show ?thesis by (auto simp: extends_def)
  qed (use assms w in auto)
  then obtain es2 where "trace s' = trace s @ (es1 @ es2)" using e1(1) by auto
  then have "newEvents s s' = es1 @ es2" by (rule newEvents_append)
  with e1(2) show ?thesis by (simp add: proj_append)
qed

lemma bnbForEach_v2_first:
  assumes "asyncForEach (d # ds) (bnbScanDeputy_v2 fuel c i h) L s = Some (r, s')"
  shows "\<exists>qs. bnbQueries (newEvents s s') = (d, offsetOf i L) # qs"
proof -
  from assms obtain r1 s1 where cb: "bnbScanDeputy_v2 fuel c i h d L s = Some (r1, s1)"
    by (auto split: option.splits)
  then obtain r0 where w: "whileLoop fuel (bnbScanBody_v2 c i h d) L s = Some (r0, s1)"
    by (auto simp: bnbScanDeputy_v2_def split: option.splits ctl.splits)
  from bnbLoop_v2_offsets[OF w] obtain es1 qs1 where
    e1: "trace s1 = trace s @ es1" "bnbQueries es1 = (d, offsetOf i L) # qs1" by blast
  have "\<exists>es2. trace s' = trace s1 @ es2"
  proof (cases r1)
    case (Inr L1)
    with assms cb have "asyncForEach ds (bnbScanDeputy_v2 fuel c i h) L1 s1 = Some (r, s')" by simp
    then have "extends s1 s' (list_all isScanEvent)"
      by (rule asyncForEach_extends[rotated]) (rule bnbScanDeputy_v2_scan)
    then show ?thesis by (auto simp: extends_def)
  qed (use assms cb in auto)
  then obtain es2 where "trace s' = trace s @ (es1 @ es2)" using e1(1) by auto
  then have "newEvents s s' = es1 @ es2" by (rule newEvents_append)
  with e1(2) show ?thesis by (simp add: proj_append)
qed

lemmas bug_defs = kavaDownClients_def recipientDownClients_def

lemma bnbScanDeputies_collect:
  "bnbScanDeputies fuel c i ds L s = Some (Break L', s') \<Longrightarrow>
   \<exists>es. trace s' = trace s @ es \<and>
        openSwaps L' = openSwaps L @ filter (\<lambda>x. status x = 1) (bnbFetched es)"
proof (induction ds arbitrary: L s)
  case Nil
  then show ?case by simp
next
  case (Cons d ds)
  from Cons.prems obtain r1 s1 where w: "whileLoop fuel (bnbScanBody c i d) L s = Some (r1, s1)"
    by (auto split: option.splits)
  with Cons.prems obtain L1 where r1: "r1 = Break L1"
    and rest: "bnbScanDeputies fuel c i ds L1 s1 = Some (Break L', s')"
    by (cases r1) auto
  from bnbScan_collect[OF w] r1 obtain es1 where
    e1: "trace s1 = trace s @ es1" "openSwaps L1 = openSwaps L @ filter (\<lambda>x. status x = 1) (bnbFetched es1)"
    by auto
  from Cons.IH[OF rest] obtain es2 where
    e2: "trace s' = trace s1 @ es2" "openSwaps L' = openSwaps L1 @ filter (\<lambda>x. status x = 1) (bnbFetched es2)"
    by auto
  from e1 e2 have "trace s' = trace s @ (es1 @ es2) \<and>
      openSwaps L' = openSwaps L @ filter (\<lambda>x. status x = 1) (bnbFetched (es1 @ es2))"
    by (simp add: proj_append)
  then show ?case by blast
qed

lemma bnbLoop_Return_None:
  assumes "whileLoop n (bnbScanBody c i d) L s = Some (Return x, s')"
  shows "x = None"
proof -
  from whileLoop_reach[OF assms] obtain L0 s0 where "bnbScanBody c i d L0 s0 = (Return x, s')"
    by blast
  then show ?thesis
    by (auto simp: bnbScanBody_def Let_def split: prod.splits sum.splits option.splits if_splits)
qed

lemma bnbScanDeputies_Return_None:
  "bnbScanDeputies fuel c i ds L s = Some (Return x, s') \<Longrightarrow> x = None"
proof (induction ds arbitrary: L s)
  case Nil
  then show ?case by simp
next
  case (Cons d ds)
  from Cons.prems obtain r1 s1 where w: "whileLoop fuel (bnbScanBody c i d) L s = Some (r1, s1)"
    by (auto split: option.splits)
  show ?case
  proof (cases r1)
    case (Break L1)
    with Cons.prems w have "bnbScanDeputies fuel c i ds L1 s1 = Some (Return x, s')" by simp
    from Cons.IH[OF this] show ?thesis .
  next
    case (Return y)
    with Cons.prems w have "y = x" by simp
    with bnbLoop_Return_None[of fuel c i d L s y s1] w Return show ?thesis by simp
  qed (use Cons.prems w in auto)
qed

text \<open>
  What the scan of refund.js returns when it returns a list: the identifiers of the
  fetched swaps whose status is 1, whatever their expiry height.
\<close>

lemma getRefundableBinanceSwaps_result:
  assumes "getRefundableBinanceSwaps fuel c i s = Some (Inr (Some ids), s')"
  shows "ids = map swapId (filter (\<lambda>x. status x = 1) (bnbFetched (newEvents s s')))"
proof -
  from assms obtain L' where "bnbScanDeputies fuel c i (deputyAddresses (self s)) (bnbLocalsInit s) s = Some (Break L', s')"
    and ids: "ids = map swapId (openSwaps L')"
    by (auto simp: getRefundableBinanceSwaps_def split: option.splits ctl.splits
        dest: bnbScanDeputies_Return_None)
  from bnbScanDeputies_collect[OF this(1)] obtain es where
    "trace s' = trace s @ es" "openSwaps L' = filter (\<lambda>x. status x = 1) (bnbFetched es)"
    by (auto simp: bnbLocalsInit_def)
  with ids show ?thesis by (simp add: newEvents_def)
qed

lemma bnbForEach_v2_collect:
  "asyncForEach ds (bnbScanDeputy_v2 fuel c i h) L s = Some (Inr L', s') \<Longrightarrow>
   \<exists>es. trace s' = trace s @ es \<and>
        openSwaps L' = openSwaps L @ filter (refundable_v2 h) (bnbFetched es)"
proof (induction ds arbitrary: L s)
  case Nil
  then show ?case by simp
next
  case (Cons d ds)
  from Cons.prems obtain r1 s1 where cb: "bnbScanDeputy_v2 fuel c i h d L s = Some (r1, s1)"
    by (auto split: option.splits)
  with Cons.prems obtain L1 where r1: "r1 = Inr L1"
    and rest: "asyncForEach ds (bnbScanDeputy_v2 fuel c i h) L1 s1 = Some (Inr L', s')"
    by (cases r1) auto
  from cb r1 obtain r0 where w: "whileLoop fuel (bnbScanBody_v2 c i h d) L s = Some (r0, s1)"
    and r0: "r0 = Break L1 \<or> r0 = Return L1"
    by (auto simp: bnbScanDeputy_v2_def split: option.splits ctl.splits)
  from bnbScan_v2_collect[OF w] r0 obtain es1 where
    e1: "trace s1 = trace s @ es1" "openSwaps L1 = openSwaps L @ filter (refundable_v2 h) (bnbFetched es1)"
    by auto
  from Cons.IH[OF rest] obtain es2 where
    e2: "trace s' = trace s1 @ es2" "openSwaps L' = openSwaps L1 @ filter (refundable_v2 h) (bnbFetched es2)"
    by auto
  from e1 e2 have "trace s' = trace s @ (es1 @ es2) \<and>
      openSwaps L' = openSwaps L @ filter (refundable_v2 h) (bnbFetched (es1 @ es2))"
    by (simp add: proj_append)
  then show ?case by blast
qed

text \<open>
  What the scan of the later revision returns: the identifiers of the fetched swaps
  that are open and whose expiry height is at most the height the node reported.
\<close>

lemma getRefundableBinanceSwaps_v2_result:
  assumes "getRefundableBinanceSwaps_v2 fuel c i s = Some (Inr ids, s')"
  shows "\<exists>h es. newEvents s s' = BnbNodeInfo (Inr h) # es \<and>
           ids = map swapId (filter (refundable_v2 h) (bnbFetched es))"
proof -
  obtain r1 s1 where n: "call (nodeInfo c) BnbNodeInfo s = (r1, s1)"
    by (cases "call (nodeInfo c) BnbNodeInfo s")
  then have s1: "trace s1 = trace s @ [BnbNodeInfo r1]" "self s1 = self s" by (auto simp: call_eq)
  from assms n obtain h where h: "r1 = Inr h"
    by (cases r1) (auto simp: getRefundableBinanceSwaps_v2_def)
  with assms n obtain L' where
    f: "asyncForEach (deputyAddresses (self s1)) (bnbScanDeputy_v2 fuel c i h) (bnbLocalsInit s) s1 = Some (Inr L', s')"
    and ids: "ids = map swapId (openSwaps L')"
    by (auto simp: getRefundableBinanceSwaps_v2_def split: option.splits sum.splits)
  from bnbForEach_v2_collect[OF f] obtain es where
    "trace s' = trace s1 @ es" "openSwaps L' = filter (refundable_v2 h) (bnbFetched es)"
    by (auto simp: bnbLocalsInit_def)
  with ids s1 h have "newEvents s s' = BnbNodeInfo (Inr h) # es \<and>
           ids = map swapId (filter (refundable_v2 h) (bnbFetched es))"
    by (simp add: newEvents_def)
  then show ?thesis by blast
qed



lemma bnbAnswers_append: "bnbAnswers (xs @ ys) = bnbAnswers xs @ bnbAnswers ys"
  by (induction xs rule: bnbAnswers.induct) auto

lemma map_upt_shift:
  "map f [0..<Suc n] = f 0 # map (\<lambda>k. f (Suc k)) [0..<n]"
  by (simp add: map_upt_Suc del: upt_Suc)

lemma whileLoop_pages:
  fixes body :: "'l \<Rightarrow> 'w state \<Rightarrow> ('l, 'r) ctl \<times> 'w state"
    and ans :: "event list \<Rightarrow> (exn + 'a list option) list"
    and qry :: "event list \<Rightarrow> 'q list"
  assumes app_a: "\<And>xs ys. ans (xs @ ys) = ans xs @ ans ys"
    and app_q: "\<And>xs ys. qry (xs @ ys) = qry xs @ qry ys"
    and step: "\<And>l s r s'. body l s = (r, s') \<Longrightarrow>
        self s' = self s \<and> (\<exists>a es. trace s' = trace s @ es \<and> ans es = [a] \<and> qry es = [mk (cur l)] \<and>
          (case r of
             Continue l' \<Rightarrow> (\<exists>p. a = Inr (Some p) \<and> p \<noteq> [] \<and>
                 (adv (self s) p \<longrightarrow> cur l' = js_add (cur l) (stp (self s))))
           | _ \<Rightarrow> \<not> nonEmptyPage a \<and> fin (self s) l r a))"
    and run: "whileLoop n body l s = Some (r, s')"
  shows "self s' = self s \<and> (\<exists>ps a lf es. trace s' = trace s @ es \<and>
            ans es = map (\<lambda>p. Inr (Some p)) ps @ [a] \<and>
            [] \<notin> set ps \<and> \<not> nonEmptyPage a \<and> fin (self s) lf r a \<and>
            ((\<forall>p\<in>set ps. adv (self s) p) \<and> \<bar>cur l\<bar> + int (length ps) * \<bar>stp (self s)\<bar> \<le> maxSafe \<longrightarrow>
               qry es = map (\<lambda>k. mk (cur l + int k * stp (self s))) [0..<Suc (length ps)] \<and>
               cur lf = cur l + int (length ps) * stp (self s)))"
  using run
proof (induction n arbitrary: l s)
  case 0
  then show ?case by simp
next
  case (Suc n)
  obtain r1 s1 where b: "body l s = (r1, s1)" by (cases "body l s")
  from step[OF b] obtain a1 es1 where
    e1: "self s1 = self s" "trace s1 = trace s @ es1" "ans es1 = [a1]" "qry es1 = [mk (cur l)]"
    and c1: "case r1 of
             Continue l' \<Rightarrow> (\<exists>p. a1 = Inr (Some p) \<and> p \<noteq> [] \<and>
                 (adv (self s) p \<longrightarrow> cur l' = js_add (cur l) (stp (self s))))
           | _ \<Rightarrow> \<not> nonEmptyPage a1 \<and> fin (self s) l r1 a1" by blast
  show ?case
  proof (cases "\<exists>l1. r1 = Continue l1")
    case True
    then obtain l1 where r1: "r1 = Continue l1" by blast
    with c1 obtain p where p: "a1 = Inr (Some p)" "p \<noteq> []"
      "adv (self s) p \<longrightarrow> cur l1 = js_add (cur l) (stp (self s))" by auto
    from Suc.prems b r1 have "whileLoop n body l1 s1 = Some (r, s')" by simp
    from Suc.IH[OF this] obtain ps a lf es2 where
      i: "self s' = self s1" "trace s' = trace s1 @ es2"
         "ans es2 = map (\<lambda>p. Inr (Some p)) ps @ [a]" "[] \<notin> set ps" "\<not> nonEmptyPage a"
         "fin (self s1) lf r a"
         "(\<forall>p\<in>set ps. adv (self s1) p) \<and> \<bar>cur l1\<bar> + int (length ps) * \<bar>stp (self s1)\<bar> \<le> maxSafe \<longrightarrow>
               qry es2 = map (\<lambda>k. mk (cur l1 + int k * stp (self s1))) [0..<Suc (length ps)] \<and>
               cur lf = cur l1 + int (length ps) * stp (self s1)" by blast
    let ?t = "stp (self s)"
    have f: "(\<forall>q\<in>set (p # ps). adv (self s) q) \<and> \<bar>cur l\<bar> + int (length (p # ps)) * \<bar>?t\<bar> \<le> maxSafe \<longrightarrow>
               qry (es1 @ es2) = map (\<lambda>k. mk (cur l + int k * ?t)) [0..<Suc (length (p # ps))] \<and>
               cur lf = cur l + int (length (p # ps)) * ?t"
    proof (intro impI, elim conjE)
      assume full: "\<forall>q\<in>set (p # ps). adv (self s) q"
        and bd: "\<bar>cur l\<bar> + int (length (p # ps)) * \<bar>?t\<bar> \<le> maxSafe"
      have nn: "0 \<le> int (length ps) * \<bar>?t\<bar>" by simp
      from bd have bd': "\<bar>cur l\<bar> + \<bar>?t\<bar> + int (length ps) * \<bar>?t\<bar> \<le> maxSafe"
        by (simp add: algebra_simps)
      with nn have "\<bar>cur l + ?t\<bar> \<le> maxSafe" by linarith
      then have j: "js_add (cur l) ?t = cur l + ?t" by (rule js_add_exact)
      with p(3) full have c: "cur l1 = cur l + ?t" by simp
      have "\<bar>cur l1\<bar> + int (length ps) * \<bar>?t\<bar> \<le> maxSafe" unfolding c using bd' by linarith
      with i(7) full e1(1) have q2: "qry es2 = map (\<lambda>k. mk (cur l1 + int k * ?t)) [0..<Suc (length ps)]"
        and lf: "cur lf = cur l1 + int (length ps) * ?t" by simp_all
      have "map (\<lambda>k. mk (cur l + int k * ?t)) [0..<Suc (length (p # ps))]
          = mk (cur l) # map (\<lambda>k. mk (cur l1 + int k * ?t)) [0..<Suc (length ps)]"
        by (subst map_upt_shift) (simp add: c algebra_simps del: upt_Suc)
      with q2 e1(4) have "qry (es1 @ es2) = map (\<lambda>k. mk (cur l + int k * ?t)) [0..<Suc (length (p # ps))]"
        by (simp add: app_q del: upt_Suc)
      moreover have "cur lf = cur l + int (length (p # ps)) * ?t"
        using lf c by (simp add: algebra_simps)
      ultimately show "qry (es1 @ es2) = map (\<lambda>k. mk (cur l + int k * ?t)) [0..<Suc (length (p # ps))] \<and>
               cur lf = cur l + int (length (p # ps)) * ?t" by blast
    qed
    have "self s' = self s" using e1 i by simp
    moreover have "trace s' = trace s @ (es1 @ es2)" using e1 i by simp
    moreover have "ans (es1 @ es2) = map (\<lambda>p. Inr (Some p)) (p # ps) @ [a]"
      using e1(3) i(3) p(1) by (simp add: app_a)
    moreover have "[] \<notin> set (p # ps)" using p(2) i(4) by auto
    moreover have "fin (self s) lf r a" using i(6) e1(1) by simp
    ultimately show ?thesis using i(5) f by blast
  next
    case False
    with Suc.prems b have rs: "r = r1" "s' = s1" by (auto split: ctl.splits)
    from False c1 have t: "\<not> nonEmptyPage a1" "fin (self s) l r1 a1" by (cases r1; simp)+
    have "ans es1 = map (\<lambda>p. Inr (Some p)) [] @ [a1]" using e1(3) by simp
    moreover have "[] \<notin> set ([]::'a list list)" by simp
    moreover have "(\<forall>p\<in>set ([]::'a list list). adv (self s) p) \<and> \<bar>cur l\<bar> + int (length ([]::'a list list)) * \<bar>stp (self s)\<bar> \<le> maxSafe \<longrightarrow>
               qry es1 = map (\<lambda>k. mk (cur l + int k * stp (self s))) [0..<Suc (length ([]::'a list list))] \<and>
               cur l = cur l + int (length ([]::'a list list)) * stp (self s)"
      using e1(4) by simp
    ultimately show ?thesis using e1(1,2) t rs by blast
  qed
qed



lemma bnbLoop_pages:
  assumes "whileLoop n (bnbScanBody c i d) L s = Some (r, s')"
  shows "self s' = self s \<and> (\<exists>ps a es. trace s' = trace s @ es \<and>
            bnbAnswers es = map (\<lambda>p. Inr (Some p)) ps @ [a] \<and> [] \<notin> set ps \<and> \<not> nonEmptyPage a \<and>
            (case r of Break L' \<Rightarrow> a = Inr (Some []) | Return x \<Rightarrow> x = None \<and> (\<exists>e. a = Inl e)
               | Throw e \<Rightarrow> a = Inr None | Continue L' \<Rightarrow> False) \<and>
            ((\<forall>p\<in>set ps. int (length p) = limit (self s)) \<and>
             \<bar>offsetOf i L\<bar> + int (length ps) * \<bar>limit (self s)\<bar> \<le> maxSafe \<longrightarrow>
               bnbQueries es = map (\<lambda>k. (d, offsetOf i L + int k * limit (self s))) [0..<Suc (length ps)] \<and>
               (\<forall>L'. r = Break L' \<longrightarrow> offsetOf i L' = offsetOf i L + int (length ps) * limit (self s))))"
proof -
  let ?fin = "\<lambda>(b::RefundBot) (l::bnb_locals) (r::(bnb_locals, string list option) ctl) a.
      (case r of Break L' \<Rightarrow> a = Inr (Some []) \<and> L' = l | Return x \<Rightarrow> x = None \<and> (\<exists>e. a = Inl e)
               | Throw e \<Rightarrow> a = Inr None | Continue L' \<Rightarrow> False)"
  have step: "\<And>l s r s'. bnbScanBody c i d l s = (r, s') \<Longrightarrow>
        self s' = self s \<and> (\<exists>a es. trace s' = trace s @ es \<and> bnbAnswers es = [a] \<and>
          bnbQueries es = [(d, offsetOf i l)] \<and>
          (case r of
             Continue l' \<Rightarrow> (\<exists>p. a = Inr (Some p) \<and> p \<noteq> [] \<and>
                 (int (length p) = limit (self s) \<longrightarrow> offsetOf i l' = js_add (offsetOf i l) (limit (self s))))
           | _ \<Rightarrow> \<not> nonEmptyPage a \<and> ?fin (self s) l r a))"
    by (auto simp: bnbScanBody_def bnbQuery_def call_eq console_def Let_def advance_def offsetOf_def
        split: prod.splits sum.splits option.splits if_splits)
  from whileLoop_pages[where ans = bnbAnswers and qry = bnbQueries and mk = "\<lambda>x. (d, x)" and cur = "offsetOf i"
      and adv = "\<lambda>b p. int (length p) = limit b" and stp = limit and fin = ?fin and body = "bnbScanBody c i d",
      OF bnbAnswers_append bnbQueries_append step assms]
  obtain ps a lf es where
    p: "self s' = self s" "trace s' = trace s @ es" "bnbAnswers es = map (\<lambda>p. Inr (Some p)) ps @ [a]"
      "[] \<notin> set ps" "\<not> nonEmptyPage a" "?fin (self s) lf r a"
      "(\<forall>p\<in>set ps. int (length p) = limit (self s)) \<and>
             \<bar>offsetOf i L\<bar> + int (length ps) * \<bar>limit (self s)\<bar> \<le> maxSafe \<longrightarrow>
               bnbQueries es = map (\<lambda>k. (d, offsetOf i L + int k * limit (self s))) [0..<Suc (length ps)] \<and>
               offsetOf i lf = offsetOf i L + int (length ps) * limit (self s)"
    by blast
  have "case r of Break L' \<Rightarrow> a = Inr (Some []) | Return x \<Rightarrow> x = None \<and> (\<exists>e. a = Inl e)
               | Throw e \<Rightarrow> a = Inr None | Continue L' \<Rightarrow> False"
    using p(6) by (cases r) auto
  moreover have "(\<forall>p\<in>set ps. int (length p) = limit (self s)) \<and>
             \<bar>offsetOf i L\<bar> + int (length ps) * \<bar>limit (self s)\<bar> \<le> maxSafe \<longrightarrow>
               bnbQueries es = map (\<lambda>k. (d, offsetOf i L + int k * limit (self s))) [0..<Suc (length ps)] \<and>
               (\<forall>L'. r = Break L' \<longrightarrow> offsetOf i L' = offsetOf i L + int (length ps) * limit (self s))"
    using p(6,7) by (cases r) auto
  ultimately show ?thesis using p(1-5) by blast
qed

lemma bnbLoop_v2_pages:
  assumes "whileLoop n (bnbScanBody_v2 c i h d) L s = Some (r, s')"
  shows "self s' = self s \<and> (\<exists>ps a es. trace s' = trace s @ es \<and>
            bnbAnswers es = map (\<lambda>p. Inr (Some p)) ps @ [a] \<and> [] \<notin> set ps \<and> \<not> nonEmptyPage a \<and>
            (case r of
               Break L' \<Rightarrow> (a = Inr (Some []) \<or> a = Inr None) \<and>
                           loc_offsetIncoming L' = offsetIncoming (self s) \<and>
                           loc_offsetOutgoing L' = offsetOutgoing (self s)
             | Return L' \<Rightarrow> (\<exists>e. a = Inl e)
             | _ \<Rightarrow> False) \<and>
            ((\<forall>p\<in>set ps. int (length p) = limit (self s)) \<and>
             \<bar>offsetOf i L\<bar> + int (length ps) * \<bar>limit (self s)\<bar> \<le> maxSafe \<longrightarrow>
               bnbQueries es = map (\<lambda>k. (d, offsetOf i L + int k * limit (self s))) [0..<Suc (length ps)] \<and>
               (\<forall>L'. r = Return L' \<longrightarrow> offsetOf i L' = offsetOf i L + int (length ps) * limit (self s))))"
proof -
  let ?fin = "\<lambda>(b::RefundBot) (l::bnb_locals) (r::(bnb_locals, bnb_locals) ctl) a.
      (case r of
         Break L' \<Rightarrow> (a = Inr (Some []) \<or> a = Inr None) \<and>
                     loc_offsetIncoming L' = offsetIncoming b \<and> loc_offsetOutgoing L' = offsetOutgoing b
       | Return L' \<Rightarrow> (\<exists>e. a = Inl e) \<and> L' = l
       | _ \<Rightarrow> False)"
  have step: "\<And>l s r s'. bnbScanBody_v2 c i h d l s = (r, s') \<Longrightarrow>
        self s' = self s \<and> (\<exists>a es. trace s' = trace s @ es \<and> bnbAnswers es = [a] \<and>
          bnbQueries es = [(d, offsetOf i l)] \<and>
          (case r of
             Continue l' \<Rightarrow> (\<exists>p. a = Inr (Some p) \<and> p \<noteq> [] \<and>
                 (int (length p) = limit (self s) \<longrightarrow> offsetOf i l' = js_add (offsetOf i l) (limit (self s))))
           | _ \<Rightarrow> \<not> nonEmptyPage a \<and> ?fin (self s) l r a))"
    by (auto simp: bnbScanBody_v2_def bnbQuery_def call_eq console_def Let_def advance_def offsetOf_def
          resetOffsets_def
        split: prod.splits sum.splits option.splits if_splits)
  from whileLoop_pages[where ans = bnbAnswers and qry = bnbQueries and mk = "\<lambda>x. (d, x)" and cur = "offsetOf i"
      and adv = "\<lambda>b p. int (length p) = limit b" and stp = limit and fin = ?fin and body = "bnbScanBody_v2 c i h d",
      OF bnbAnswers_append bnbQueries_append step assms]
  obtain ps a lf es where
    p: "self s' = self s" "trace s' = trace s @ es" "bnbAnswers es = map (\<lambda>p. Inr (Some p)) ps @ [a]"
      "[] \<notin> set ps" "\<not> nonEmptyPage a" "?fin (self s) lf r a"
      "(\<forall>p\<in>set ps. int (length p) = limit (self s)) \<and>
             \<bar>offsetOf i L\<bar> + int (length ps) * \<bar>limit (self s)\<bar> \<le> maxSafe \<longrightarrow>
               bnbQueries es = map (\<lambda>k. (d, offsetOf i L + int k * limit (self s))) [0..<Suc (length ps)] \<and>
               offsetOf i lf = offsetOf i L + int (length ps) * limit (self s)"
    by blast
  have "case r of
               Break L' \<Rightarrow> (a = Inr (Some []) \<or> a = Inr None) \<and>
                           loc_offsetIncoming L' = offsetIncoming (self s) \<and>
                           loc_offsetOutgoing L' = offsetOutgoing (self s)
             | Return L' \<Rightarrow> (\<exists>e. a = Inl e)
             | _ \<Rightarrow> False"
    using p(6) by (cases r) auto
  moreover have "(\<forall>p\<in>set ps. int (length p) = limit (self s)) \<and>
             \<bar>offsetOf i L\<bar> + int (length ps) * \<bar>limit (self s)\<bar> \<le> maxSafe \<longrightarrow>
               bnbQueries es = map (\<lambda>k. (d, offsetOf i L + int k * limit (self s))) [0..<Suc (length ps)] \<and>
               (\<forall>L'. r = Return L' \<longrightarrow> offsetOf i L' = offsetOf i L + int (length ps) * limit (self s))"
    using p(6,7) by (cases r) auto
  ultimately show ?thesis using p(1-5) by blast
qed

lemma pages_then_last:
  "map (\<lambda>p. Inr (Some p)) ps @ [a] = [Inr (Some b), a'] \<Longrightarrow> ps = [b] \<and> a = a'"
  by (cases ps) (auto simp: Cons_eq_append_conv)

lemma kavaRound_trace:
  "self (sleep ms (kavaRefundTry c x q s)) = self s \<and>
   trace (sleep ms (kavaRefundTry c x q s))
     = trace s @ kavaRound ms x q (fst (refundSwap c x q (world s)))"
  by (cases "fst (refundSwap c x q (world s))")
     (auto simp: kavaRefundTry_def kavaRound_def sleep_def call_eq console_def Let_def split: prod.splits)

lemma bnbRound_trace:
  "self (sleep ms (bnbRefundOne c x s)) = self s \<and>
   trace (sleep ms (bnbRefundOne c x s))
     = trace s @ bnbRound ms (bnbChainAddress (self s)) x
                   (fst (refundHTLT c (bnbChainAddress (self s)) x (world s)))"
  by (cases "fst (refundHTLT c (bnbChainAddress (self s)) x (world s))")
     (auto simp: bnbRefundOne_def bnbRound_def sleep_def call_eq console_def Let_def
       split: prod.splits option.splits list.splits)

lemma kavaRefundLoop_rounds:
  "\<exists>qs rs. length qs = length ids \<and> length rs = length ids \<and>
     self (kavaRefundLoop c base i ids s) = self s \<and>
     trace (kavaRefundLoop c base i ids s)
       = trace s @ concat (map (\<lambda>(x, q, a). kavaRound 7000 x q a) (zip ids (zip qs rs))) \<and>
     (0 \<le> i \<and> \<bar>base\<bar> + i + int (length ids) \<le> maxSafe \<longrightarrow>
        qs = map (\<lambda>k. base + i + int k) [0..<length ids])"
proof (induction ids arbitrary: i s)
  case Nil
  then show ?case by simp
next
  case (Cons x xs)
  let ?q = "js_add base i"
  let ?a = "fst (refundSwap c x ?q (world s))"
  let ?s1 = "sleep 7000 (kavaRefundTry c x ?q s)"
  from Cons.IH[of "js_add i 1" ?s1] obtain qs rs where
    i: "length qs = length xs" "length rs = length xs"
       "self (kavaRefundLoop c base (js_add i 1) xs ?s1) = self ?s1"
       "trace (kavaRefundLoop c base (js_add i 1) xs ?s1)
          = trace ?s1 @ concat (map (\<lambda>(x, q, a). kavaRound 7000 x q a) (zip xs (zip qs rs)))"
       "0 \<le> js_add i 1 \<and> \<bar>base\<bar> + js_add i 1 + int (length xs) \<le> maxSafe \<longrightarrow>
          qs = map (\<lambda>k. base + js_add i 1 + int k) [0..<length xs]"
    by blast
  have seq: "0 \<le> i \<and> \<bar>base\<bar> + i + int (length (x # xs)) \<le> maxSafe \<longrightarrow>
        ?q # qs = map (\<lambda>k. base + i + int k) [0..<length (x # xs)]"
  proof (intro impI, elim conjE)
    assume nn: "0 \<le> i" and bd: "\<bar>base\<bar> + i + int (length (x # xs)) \<le> maxSafe"
    then have "\<bar>base + i\<bar> \<le> maxSafe" "\<bar>i + 1\<bar> \<le> maxSafe" by simp_all
    then have j: "js_add base i = base + i" "js_add i 1 = i + 1" by (simp_all add: js_add_exact)
    with i(5) nn bd have "qs = map (\<lambda>k. base + (i + 1) + int k) [0..<length xs]" by simp
    then show "?q # qs = map (\<lambda>k. base + i + int k) [0..<length (x # xs)]"
      by (simp add: j map_upt_shift algebra_simps del: upt_Suc)
  qed
  have "length (?q # qs) = length (x # xs)" "length (?a # rs) = length (x # xs)"
    using i(1,2) by simp_all
  moreover have "self (kavaRefundLoop c base i (x # xs) s) = self s"
    using i(3) kavaRound_trace[of 7000 c x ?q s] by (simp add: Let_def)
  moreover have "trace (kavaRefundLoop c base i (x # xs) s)
       = trace s @ concat (map (\<lambda>(x, q, a). kavaRound 7000 x q a) (zip (x # xs) (zip (?q # qs) (?a # rs))))"
    using i(4) kavaRound_trace[of 7000 c x ?q s] by (simp add: Let_def)
  ultimately show ?case using seq
    by (intro exI[of _ "?q # qs"] exI[of _ "?a # rs"]) blast
qed

lemma kavaForEach_v2_rounds:
  "\<exists>j s' qs rs. asyncForEach ids (kavaRefundOne_v2 c base) i s = Some (Inr j, s') \<and>
     length qs = length ids \<and> length rs = length ids \<and>
     self s' = self s \<and>
     trace s' = trace s @ concat (map (\<lambda>(x, q, a). kavaRound 25000 x q a) (zip ids (zip qs rs))) \<and>
     (0 \<le> i \<and> \<bar>base\<bar> + i + int (length ids) \<le> maxSafe \<longrightarrow>
        qs = map (\<lambda>k. base + i + int k) [0..<length ids])"
proof (induction ids arbitrary: i s)
  case Nil
  then show ?case by simp
next
  case (Cons x xs)
  let ?q = "js_add base i"
  let ?a = "fst (refundSwap c x ?q (world s))"
  let ?s1 = "sleep 25000 (kavaRefundTry c x ?q s)"
  from Cons.IH[of "js_add i 1" ?s1] obtain j s' qs rs where
    i: "asyncForEach xs (kavaRefundOne_v2 c base) (js_add i 1) ?s1 = Some (Inr j, s')"
       "length qs = length xs" "length rs = length xs"
       "self s' = self ?s1"
       "trace s' = trace ?s1 @ concat (map (\<lambda>(x, q, a). kavaRound 25000 x q a) (zip xs (zip qs rs)))"
       "0 \<le> js_add i 1 \<and> \<bar>base\<bar> + js_add i 1 + int (length xs) \<le> maxSafe \<longrightarrow>
          qs = map (\<lambda>k. base + js_add i 1 + int k) [0..<length xs]"
    by blast
  have seq: "0 \<le> i \<and> \<bar>base\<bar> + i + int (length (x # xs)) \<le> maxSafe \<longrightarrow>
        ?q # qs = map (\<lambda>k. base + i + int k) [0..<length (x # xs)]"
  proof (intro impI, elim conjE)
    assume nn: "0 \<le> i" and bd: "\<bar>base\<bar> + i + int (length (x # xs)) \<le> maxSafe"
    then have "\<bar>base + i\<bar> \<le> maxSafe" "\<bar>i + 1\<bar> \<le> maxSafe" by simp_all
    then have j: "js_add base i = base + i" "js_add i 1 = i + 1" by (simp_all add: js_add_exact)
    with i(6) nn bd have "qs = map (\<lambda>k. base + (i + 1) + int k) [0..<length xs]" by simp
    then show "?q # qs = map (\<lambda>k. base + i + int k) [0..<length (x # xs)]"
      by (simp add: j map_upt_shift algebra_simps del: upt_Suc)
  qed
  have "asyncForEach (x # xs) (kavaRefundOne_v2 c base) i s = Some (Inr j, s')"
    using i(1) by (simp add: kavaRefundOne_v2_def Let_def)
  moreover have "length (?q # qs) = length (x # xs)" "length (?a # rs) = length (x # xs)"
    using i(2,3) by simp_all
  moreover have "self s' = self s"
    using i(4) kavaRound_trace[of 25000 c x ?q s] by simp
  moreover have "trace s'
       = trace s @ concat (map (\<lambda>(x, q, a). kavaRound 25000 x q a) (zip (x # xs) (zip (?q # qs) (?a # rs))))"
    using i(5) kavaRound_trace[of 25000 c x ?q s] by simp
  ultimately show ?case using seq
    by (intro exI[of _ j] exI[of _ s'] exI[of _ "?q # qs"] exI[of _ "?a # rs"]) blast
qed

lemma bnbRefundLoop_rounds:
  "\<exists>rs. length rs = length ids \<and>
     self (bnbRefundLoop c ids s) = self s \<and>
     trace (bnbRefundLoop c ids s)
       = trace s @ concat (map (\<lambda>(x, a). bnbRound 3000 (bnbChainAddress (self s)) x a) (zip ids rs))"
proof (induction ids arbitrary: s)
  case Nil
  then show ?case by simp
next
  case (Cons x xs)
  let ?a = "fst (refundHTLT c (bnbChainAddress (self s)) x (world s))"
  let ?s1 = "sleep 3000 (bnbRefundOne c x s)"
  note t = bnbRound_trace[of 3000 c x s]
  from Cons.IH[of ?s1] obtain rs where
    i: "length rs = length xs" "self (bnbRefundLoop c xs ?s1) = self ?s1"
       "trace (bnbRefundLoop c xs ?s1)
          = trace ?s1 @ concat (map (\<lambda>(x, a). bnbRound 3000 (bnbChainAddress (self ?s1)) x a) (zip xs rs))"
    by blast
  have "length (?a # rs) = length (x # xs)" using i(1) by simp
  moreover have "self (bnbRefundLoop c (x # xs) s) = self s" using i(2) t by simp
  moreover have "trace (bnbRefundLoop c (x # xs) s)
       = trace s @ concat (map (\<lambda>(x, a). bnbRound 3000 (bnbChainAddress (self s)) x a) (zip (x # xs) (?a # rs)))"
    using i(3) t by simp
  ultimately show ?case
    by (intro exI[of _ "?a # rs"]) blast
qed

lemma bnbForEach_v2_rounds:
  "\<exists>s' rs. asyncForEach ids (bnbRefundCallback_v2 c) () s = Some (Inr (), s') \<and>
     length rs = length ids \<and> self s' = self s \<and>
     trace s' = trace s @ concat (map (\<lambda>(x, a). bnbRound 5000 (bnbChainAddress (self s)) (Some x) a) (zip ids rs))"
proof (induction ids arbitrary: s)
  case Nil
  then show ?case by simp
next
  case (Cons x xs)
  let ?a = "fst (refundHTLT c (bnbChainAddress (self s)) (Some x) (world s))"
  let ?s1 = "sleep 5000 (bnbRefundOne c (Some x) s)"
  note t = bnbRound_trace[of 5000 c "Some x" s]
  from Cons.IH[of ?s1] obtain s' rs where
    i: "asyncForEach xs (bnbRefundCallback_v2 c) () ?s1 = Some (Inr (), s')"
       "length rs = length xs" "self s' = self ?s1"
       "trace s' = trace ?s1 @ concat (map (\<lambda>(x, a). bnbRound 5000 (bnbChainAddress (self ?s1)) (Some x) a) (zip xs rs))"
    by blast
  have "asyncForEach (x # xs) (bnbRefundCallback_v2 c) () s = Some (Inr (), s')"
    using i(1) by (simp add: bnbRefundCallback_v2_def)
  moreover have "length (?a # rs) = length (x # xs)" using i(2) by simp
  moreover have "self s' = self s" using i(3) t by simp
  moreover have "trace s'
       = trace s @ concat (map (\<lambda>(x, a). bnbRound 5000 (bnbChainAddress (self s)) (Some x) a) (zip (x # xs) (?a # rs)))"
    using i(4) t by simp
  ultimately show ?case
    by (intro exI[of _ s'] exI[of _ "?a # rs"]) blast
qed

lemma kavaRounds_projections:
  "kavaSubmissions (concat (map (\<lambda>(x, q, a). kavaRound ms x q a) ts)) = map (\<lambda>(x, q, a). (x, q)) ts"
  "metaDataLoads (concat (map (\<lambda>(x, q, a). kavaRound ms x q a) ts)) = []"
  by (induction ts) (auto simp: kavaRound_def proj_append split: sum.splits)

lemma bnbRounds_projections:
  "bnbSubmissions (concat (map (\<lambda>(x, a). bnbRound ms addr (f x) a) ts)) = map (\<lambda>(x, a). f x) ts"
  by (induction ts) (auto simp: bnbRound_def proj_append split: sum.splits option.splits list.splits)

lemma zip3_fst:
  assumes "length qs = length ids" "length rs = length ids"
  shows "map (\<lambda>(x, q, a). (x, q)) (zip ids (zip qs rs)) = zip ids qs"
proof -
  from assms have "length ids = length qs" "length qs = length rs" by simp_all
  then show ?thesis by (induction ids qs rs rule: list_induct3) auto
qed

lemma zip2_fst:
  assumes "length rs = length ids"
  shows "map (\<lambda>(x, a). f x) (zip ids rs) = map f ids"
proof -
  from assms have "length ids = length rs" by simp
  then show ?thesis by (induction ids rs rule: list_induct2) auto
qed

lemma zip_map_upt:
  "zip xs (map f [0..<length xs]) = map (\<lambda>i. (xs ! i, f i)) [0..<length xs]"
  by (rule nth_equalityI) auto

lemma scan_newEvents:
  "extends s s1 (list_all isScanEvent) \<Longrightarrow>
   self s1 = self s \<and> trace s1 = trace s @ newEvents s s1 \<and> list_all isScanEvent (newEvents s s1)"
  by (rule extends_newEvents)

lemma refundKavaSwaps_rounds:
  assumes scan: "getRefundableKavaSwaps fuel c s = Some (Inr (Some ids), s1)"
    and run: "refundKavaSwaps fuel c s = Some (r, s')"
  shows "list_all isScanEvent (newEvents s s1) \<and>
     (\<exists>r0 post. newEvents s s' = newEvents s s1 @ Console (KavaCount (length ids)) # KavaLoadMetaData r0 # post \<and>
       (case r0 of
          Inl e \<Rightarrow> post = [Console (Exn e)]
        | Inr base \<Rightarrow> (\<exists>qs rs. length qs = length ids \<and> length rs = length ids \<and>
             post = concat (map (\<lambda>(x, q, a). kavaRound 7000 x q a) (zip ids (zip qs rs))) \<and>
             (\<bar>base\<bar> + int (length ids) \<le> maxSafe \<longrightarrow> qs = map (\<lambda>k. base + int k) [0..<length ids]))))"
proof -
  from scan_newEvents[OF getRefundableKavaSwaps_scan[OF scan]]
  have s1: "self s1 = self s" "trace s1 = trace s @ newEvents s s1" "list_all isScanEvent (newEvents s s1)"
    by blast+
  let ?es1 = "newEvents s s1"
  let ?s2 = "console (KavaCount (length ids)) s1"
  obtain r0 s3 where l: "call (loadMetaData c) KavaLoadMetaData ?s2 = (r0, s3)"
    by (cases "call (loadMetaData c) KavaLoadMetaData ?s2")
  then have s3: "trace s3 = trace s @ ?es1 @ [Console (KavaCount (length ids)), KavaLoadMetaData r0]"
    using s1(2) by (auto simp: call_eq console_def)
  have "\<exists>post. newEvents s s' = ?es1 @ Console (KavaCount (length ids)) # KavaLoadMetaData r0 # post \<and>
       (case r0 of
          Inl e \<Rightarrow> post = [Console (Exn e)]
        | Inr base \<Rightarrow> (\<exists>qs rs. length qs = length ids \<and> length rs = length ids \<and>
             post = concat (map (\<lambda>(x, q, a). kavaRound 7000 x q a) (zip ids (zip qs rs))) \<and>
             (\<bar>base\<bar> + int (length ids) \<le> maxSafe \<longrightarrow> qs = map (\<lambda>k. base + int k) [0..<length ids])))"
  proof (cases r0)
    case (Inl e)
    with run scan l have "s' = console (Exn e) s3" by (simp add: refundKavaSwaps_def Let_def)
    with s3 have "trace s' = trace s @ (?es1 @ Console (KavaCount (length ids)) # KavaLoadMetaData r0 # [Console (Exn e)])"
      by (simp add: console_def)
    then have "newEvents s s' = ?es1 @ Console (KavaCount (length ids)) # KavaLoadMetaData r0 # [Console (Exn e)]"
      by (rule newEvents_append)
    with Inl show ?thesis by simp
  next
    case (Inr base)
    with run scan l have s': "s' = kavaRefundLoop c base 0 ids s3" by (simp add: refundKavaSwaps_def Let_def)
    from kavaRefundLoop_rounds[of ids c base 0 s3] obtain qs rs where
      p: "length qs = length ids" "length rs = length ids"
         "trace s' = trace s3 @ concat (map (\<lambda>(x, q, a). kavaRound 7000 x q a) (zip ids (zip qs rs)))"
         "\<bar>base\<bar> + int (length ids) \<le> maxSafe \<longrightarrow> qs = map (\<lambda>k. base + int k) [0..<length ids]"
      unfolding s' by auto
    let ?post = "concat (map (\<lambda>(x, q, a). kavaRound 7000 x q a) (zip ids (zip qs rs)))"
    from p(3) s3 have "trace s' = trace s @ (?es1 @ Console (KavaCount (length ids)) # KavaLoadMetaData r0 # ?post)"
      by simp
    then have "newEvents s s' = ?es1 @ Console (KavaCount (length ids)) # KavaLoadMetaData r0 # ?post"
      by (rule newEvents_append)
    with Inr p(1,2,4) show ?thesis by (intro exI[of _ ?post]) auto
  qed
  with s1(3) show ?thesis by blast
qed

lemma refundKavaSwaps_v2_rounds:
  assumes scan: "getRefundableKavaSwaps_v2 fuel c s = Some (Inr ids, s1)"
    and run: "refundKavaSwaps_v2 fuel c s = Some (r, s')"
  shows "list_all isScanEvent (newEvents s s1) \<and>
     (\<exists>r0 post. newEvents s s' = newEvents s s1 @ Console (KavaCount (length ids)) # KavaLoadMetaData r0 # post \<and>
       (case r0 of
          Inl e \<Rightarrow> post = [Console (Exn e)]
        | Inr base \<Rightarrow> (\<exists>qs rs. length qs = length ids \<and> length rs = length ids \<and>
             post = concat (map (\<lambda>(x, q, a). kavaRound 25000 x q a) (zip ids (zip qs rs))) \<and>
             (\<bar>base\<bar> + int (length ids) \<le> maxSafe \<longrightarrow> qs = map (\<lambda>k. base + int k) [0..<length ids]))))"
proof -
  from scan_newEvents[OF getRefundableKavaSwaps_v2_scan[OF scan]]
  have s1: "self s1 = self s" "trace s1 = trace s @ newEvents s s1" "list_all isScanEvent (newEvents s s1)"
    by blast+
  let ?es1 = "newEvents s s1"
  let ?s2 = "console (KavaCount (length ids)) s1"
  obtain r0 s3 where l: "call (loadMetaData c) KavaLoadMetaData ?s2 = (r0, s3)"
    by (cases "call (loadMetaData c) KavaLoadMetaData ?s2")
  then have s3: "trace s3 = trace s @ ?es1 @ [Console (KavaCount (length ids)), KavaLoadMetaData r0]"
    using s1(2) by (auto simp: call_eq console_def)
  have "\<exists>post. newEvents s s' = ?es1 @ Console (KavaCount (length ids)) # KavaLoadMetaData r0 # post \<and>
       (case r0 of
          Inl e \<Rightarrow> post = [Console (Exn e)]
        | Inr base \<Rightarrow> (\<exists>qs rs. length qs = length ids \<and> length rs = length ids \<and>
             post = concat (map (\<lambda>(x, q, a). kavaRound 25000 x q a) (zip ids (zip qs rs))) \<and>
             (\<bar>base\<bar> + int (length ids) \<le> maxSafe \<longrightarrow> qs = map (\<lambda>k. base + int k) [0..<length ids])))"
  proof (cases r0)
    case (Inl e)
    with run scan l have "s' = console (Exn e) s3" by (simp add: refundKavaSwaps_v2_def Let_def)
    with s3 have "trace s' = trace s @ (?es1 @ Console (KavaCount (length ids)) # KavaLoadMetaData r0 # [Console (Exn e)])"
      by (simp add: console_def)
    then have "newEvents s s' = ?es1 @ Console (KavaCount (length ids)) # KavaLoadMetaData r0 # [Console (Exn e)]"
      by (rule newEvents_append)
    with Inl show ?thesis by simp
  next
    case (Inr base)
    from kavaForEach_v2_rounds[of ids c base 0 s3] obtain j sf qs rs where
      f: "asyncForEach ids (kavaRefundOne_v2 c base) 0 s3 = Some (Inr j, sf)" and
      p: "length qs = length ids" "length rs = length ids"
         "trace sf = trace s3 @ concat (map (\<lambda>(x, q, a). kavaRound 25000 x q a) (zip ids (zip qs rs)))"
         "\<bar>base\<bar> + int (length ids) \<le> maxSafe \<longrightarrow> qs = map (\<lambda>k. base + int k) [0..<length ids]"
      by auto
    from run scan l Inr f have s': "s' = sf" by (simp add: refundKavaSwaps_v2_def Let_def)
    let ?post = "concat (map (\<lambda>(x, q, a). kavaRound 25000 x q a) (zip ids (zip qs rs)))"
    from p(3) s3 have "trace s' = trace s @ (?es1 @ Console (KavaCount (length ids)) # KavaLoadMetaData r0 # ?post)"
      unfolding s' by simp
    then have "newEvents s s' = ?es1 @ Console (KavaCount (length ids)) # KavaLoadMetaData r0 # ?post"
      by (rule newEvents_append)
    with Inr p(1,2,4) show ?thesis by (intro exI[of _ ?post]) auto
  qed
  with s1(3) show ?thesis by blast
qed

lemma map_zip_Some:
  "map (\<lambda>(x, a). g x a) (zip (map Some ys) rs) = map (\<lambda>(x, a). g (Some x) a) (zip ys rs)"
  by (simp add: zip_map1 case_prod_beta)

lemma refundBinanceChainSwaps_rounds:
  assumes scan1: "getRefundableBinanceSwaps fuel c True t = Some (Inr (Some inc), t1)"
    and scan2: "getRefundableBinanceSwaps fuel c False t1 = Some (Inr (Some out), t2)"
    and run: "refundBinanceChainSwaps fuel c t = Some (r, t')"
  shows "list_all isScanEvent (newEvents t t2) \<and>
     (\<exists>rs. length rs = length (inc @ out) \<and>
        newEvents t t' = newEvents t t2 @ Console (BnbCount (length (inc @ out)))
          # concat (map (\<lambda>(x, a). bnbRound 3000 (bnbChainAddress (self t)) (Some x) a) (zip (inc @ out) rs)))"
proof -
  from scan_newEvents[OF getRefundableBinanceSwaps_scan[OF scan1]]
  have s1: "self t1 = self t" "trace t1 = trace t @ newEvents t t1" "list_all isScanEvent (newEvents t t1)"
    by blast+
  from scan_newEvents[OF getRefundableBinanceSwaps_scan[OF scan2]]
  have s2: "self t2 = self t1" "trace t2 = trace t1 @ newEvents t1 t2" "list_all isScanEvent (newEvents t1 t2)"
    by blast+
  have n2: "newEvents t t2 = newEvents t t1 @ newEvents t1 t2"
    using s1(2) s2(2) by (intro newEvents_append) simp
  then have sc: "list_all isScanEvent (newEvents t t2)" using s1(3) s2(3) by simp
  have tr2: "trace t2 = trace t @ newEvents t t2" using s1(2) s2(2) n2 by simp
  let ?ids = "inc @ out"
  let ?s3 = "console (BnbCount (length ?ids)) t2"
  from run scan1 scan2 have t': "t' = bnbRefundLoop c (map Some ?ids) ?s3"
    by (simp add: refundBinanceChainSwaps_def Let_def js_concat_def)
  from bnbRefundLoop_rounds[of "map Some ?ids" c ?s3] obtain rs where
    p: "length rs = length ?ids"
       "trace t' = trace ?s3 @ concat (map (\<lambda>(x, a). bnbRound 3000 (bnbChainAddress (self ?s3)) x a) (zip (map Some ?ids) rs))"
    unfolding t' by auto
  have a: "bnbChainAddress (self ?s3) = bnbChainAddress (self t)" using s1(1) s2(1) by (simp add: console_def)
  let ?post = "concat (map (\<lambda>(x, a). bnbRound 3000 (bnbChainAddress (self t)) (Some x) a) (zip ?ids rs))"
  from p(2) have "trace t' = trace t @ (newEvents t t2 @ Console (BnbCount (length ?ids)) # ?post)"
    unfolding a map_zip_Some using tr2 by (simp add: console_def)
  then have "newEvents t t' = newEvents t t2 @ Console (BnbCount (length ?ids)) # ?post"
    by (rule newEvents_append)
  with p(1) sc show ?thesis by blast
qed

lemma refundBinanceChainSwaps_v2_rounds:
  assumes scan1: "getRefundableBinanceSwaps_v2 fuel c True t = Some (Inr inc, t1)"
    and scan2: "getRefundableBinanceSwaps_v2 fuel c False t1 = Some (Inr out, t2)"
    and run: "refundBinanceChainSwaps_v2 fuel c t = Some (r, t')"
  shows "list_all isScanEvent (newEvents t t2) \<and>
     (\<exists>rs. length rs = length (inc @ out) \<and>
        newEvents t t' = newEvents t t2 @ Console (BnbCount (length (inc @ out)))
          # concat (map (\<lambda>(x, a). bnbRound 5000 (bnbChainAddress (self t)) (Some x) a) (zip (inc @ out) rs)))"
proof -
  from scan_newEvents[OF getRefundableBinanceSwaps_v2_scan[OF scan1]]
  have s1: "self t1 = self t" "trace t1 = trace t @ newEvents t t1" "list_all isScanEvent (newEvents t t1)"
    by blast+
  from scan_newEvents[OF getRefundableBinanceSwaps_v2_scan[OF scan2]]
  have s2: "self t2 = self t1" "trace t2 = trace t1 @ newEvents t1 t2" "list_all isScanEvent (newEvents t1 t2)"
    by blast+
  have n2: "newEvents t t2 = newEvents t t1 @ newEvents t1 t2"
    using s1(2) s2(2) by (intro newEvents_append) simp
  then have sc: "list_all isScanEvent (newEvents t t2)" using s1(3) s2(3) by simp
  have tr2: "trace t2 = trace t @ newEvents t t2" using s1(2) s2(2) n2 by simp
  let ?ids = "inc @ out"
  let ?s3 = "console (BnbCount (length ?ids)) t2"
  from bnbForEach_v2_rounds[of ?ids c ?s3] obtain sf rs where
    f: "asyncForEach ?ids (bnbRefundCallback_v2 c) () ?s3 = Some (Inr (), sf)" and
    p: "length rs = length ?ids"
       "trace sf = trace ?s3 @ concat (map (\<lambda>(x, a). bnbRound 5000 (bnbChainAddress (self ?s3)) (Some x) a) (zip ?ids rs))"
    by auto
  from run scan1 scan2 f have t': "t' = sf"
    by (simp add: refundBinanceChainSwaps_v2_def Let_def)
  have a: "bnbChainAddress (self ?s3) = bnbChainAddress (self t)" using s1(1) s2(1) by (simp add: console_def)
  let ?post = "concat (map (\<lambda>(x, a). bnbRound 5000 (bnbChainAddress (self t)) (Some x) a) (zip ?ids rs))"
  from p(2) have "trace t' = trace t @ (newEvents t t2 @ Console (BnbCount (length ?ids)) # ?post)"
    unfolding a t' using tr2 by (simp add: console_def)
  then have "newEvents t t' = newEvents t t2 @ Console (BnbCount (length ?ids)) # ?post"
    by (rule newEvents_append)
  with p(1) sc show ?thesis by blast
qed

lemmas rejecting_defs = rejectingClients_def rejectingClients_v2_def rejectingKavaRounds_def
  rejectingBnbRounds_def

lemma refundKavaSwaps_rejecting:
  "getRefundableKavaSwaps 2 rejectingClients (startState [''d1''] 3)
     = Some (Inr (Some [''hkb'', ''gkb'']),
         (startState [''d1''] 3)
           \<lparr>trace := [KavaGetSwaps 1 3 (Inr (Some [kavaSwapA, kavaSwapB])),
                      KavaGetSwaps 2 3 (Inr (Some []))]\<rparr>)"
  "refundKavaSwaps 2 rejectingClients (startState [''d1''] 3)
     = Some (Inr (),
         (startState [''d1''] 3)
           \<lparr>trace := [KavaGetSwaps 1 3 (Inr (Some [kavaSwapA, kavaSwapB])),
                      KavaGetSwaps 2 3 (Inr (Some [])),
                      Console (KavaCount 2),
                      KavaLoadMetaData (Inr 40)] @ rejectingKavaRounds 7000\<rparr>)"
  by (simp_all add: eval_defs rejecting_defs)

lemma refundKavaSwaps_v2_rejecting:
  "getRefundableKavaSwaps_v2 2 rejectingClients_v2 (startState [''d1''] 3)
     = Some (Inr [''hkb'', ''gkb''],
         (startState [''d1''] 3)
           \<lparr>trace := [KavaGetSwaps 0 3 (Inr (Some [kavaSwapA, kavaSwapB])),
                      KavaGetSwaps 3 3 (Inr (Some []))]\<rparr>)"
  "refundKavaSwaps_v2 2 rejectingClients_v2 (startState [''d1''] 3)
     = Some (Inr (),
         (startState [''d1''] 3)
           \<lparr>trace := [KavaGetSwaps 0 3 (Inr (Some [kavaSwapA, kavaSwapB])),
                      KavaGetSwaps 3 3 (Inr (Some [])),
                      Console (KavaCount 2),
                      KavaLoadMetaData (Inr 40)] @ rejectingKavaRounds 25000\<rparr>)"
  by (simp_all add: eval_defs rejecting_defs)

lemma refundBinanceChainSwaps_rejecting:
  "getRefundableBinanceSwaps 2 rejectingClients True (startState [''d1''] 3)
     = Some (Inr (Some [''a'', ''b'', ''c'']),
         (startState [''d1''] 3)
           \<lparr>trace := [BnbGetSwapByCreator ''d1'' 3 0
                        (Inr (Some [openSwap ''a'' 10, openSwap ''b'' 20, openSwap ''c'' 30])),
                      BnbGetSwapByCreator ''d1'' 3 3 (Inr (Some []))]\<rparr>)"
  "getRefundableBinanceSwaps 2 rejectingClients False
       ((startState [''d1''] 3)
           \<lparr>trace := [BnbGetSwapByCreator ''d1'' 3 0
                        (Inr (Some [openSwap ''a'' 10, openSwap ''b'' 20, openSwap ''c'' 30])),
                      BnbGetSwapByCreator ''d1'' 3 3 (Inr (Some []))]\<rparr>)
     = Some (Inr (Some []),
         (startState [''d1''] 3)
           \<lparr>trace := [BnbGetSwapByCreator ''d1'' 3 0
                        (Inr (Some [openSwap ''a'' 10, openSwap ''b'' 20, openSwap ''c'' 30])),
                      BnbGetSwapByCreator ''d1'' 3 3 (Inr (Some [])),
                      BnbGetSwapByRecipient ''d1'' 3 0 (Inr (Some []))]\<rparr>)"
  "refundBinanceChainSwaps 2 rejectingClients (startState [''d1''] 3)
     = Some (Inr (),
         (startState [''d1''] 3)
           \<lparr>trace := [BnbGetSwapByCreator ''d1'' 3 0
                        (Inr (Some [openSwap ''a'' 10, openSwap ''b'' 20, openSwap ''c'' 30])),
                      BnbGetSwapByCreator ''d1'' 3 3 (Inr (Some [])),
                      BnbGetSwapByRecipient ''d1'' 3 0 (Inr (Some [])),
                      Console (BnbCount 3)] @ rejectingBnbRounds 3000\<rparr>)"
  by (simp_all add: eval_defs rejecting_defs)

lemma refundBinanceChainSwaps_v2_rejecting:
  "getRefundableBinanceSwaps_v2 2 rejectingClients_v2 True (startState [''d1''] 3)
     = Some (Inr [''a'', ''b'', ''c''],
         (startState [''d1''] 3)
           \<lparr>trace := [BnbNodeInfo (Inr (Some 500)),
                      BnbGetSwapByCreator ''d1'' 3 0
                        (Inr (Some [openSwap ''a'' 10, openSwap ''b'' 20, openSwap ''c'' 30])),
                      BnbGetSwapByCreator ''d1'' 3 3 (Inr (Some []))]\<rparr>)"
  "getRefundableBinanceSwaps_v2 2 rejectingClients_v2 False
       ((startState [''d1''] 3)
           \<lparr>trace := [BnbNodeInfo (Inr (Some 500)),
                      BnbGetSwapByCreator ''d1'' 3 0
                        (Inr (Some [openSwap ''a'' 10, openSwap ''b'' 20, openSwap ''c'' 30])),
                      BnbGetSwapByCreator ''d1'' 3 3 (Inr (Some []))]\<rparr>)
     = Some (Inr [],
         (startState [''d1''] 3)
           \<lparr>trace := [BnbNodeInfo (Inr (Some 500)),
                      BnbGetSwapByCreator ''d1'' 3 0
                        (Inr (Some [openSwap ''a'' 10, openSwap ''b'' 20, openSwap ''c'' 30])),
                      BnbGetSwapByCreator ''d1'' 3 3 (Inr (Some [])),
                      BnbNodeInfo (Inr (Some 500)),
                      BnbGetSwapByRecipient ''d1'' 3 0 (Inr (Some []))]\<rparr>)"
  "refundBinanceChainSwaps_v2 2 rejectingClients_v2 (startState [''d1''] 3)
     = Some (Inr (),
         (startState [''d1''] 3)
           \<lparr>trace := [BnbNodeInfo (Inr (Some 500)),
                      BnbGetSwapByCreator ''d1'' 3 0
                        (Inr (Some [openSwap ''a'' 10, openSwap ''b'' 20, openSwap ''c'' 30])),
                      BnbGetSwapByCreator ''d1'' 3 3 (Inr (Some [])),
                      BnbNodeInfo (Inr (Some 500)),
                      BnbGetSwapByRecipient ''d1'' 3 0 (Inr (Some [])),
                      Console (BnbCount 3)] @ rejectingBnbRounds 5000\<rparr>)"
  by (simp_all add: eval_defs rejecting_defs)

lemma refundKavaSwaps_noMetaData:
  "getRefundableKavaSwaps 2 noMetaDataClients (startState [''d1''] 2)
     = Some (Inr (Some [''hkb'', ''gkb'']),
         (startState [''d1''] 2)
           \<lparr>trace := [KavaGetSwaps 1 2 (Inr (Some [kavaSwapA, kavaSwapB])),
                      KavaGetSwaps 2 2 (Inr (Some []))]\<rparr>)"
  "refundKavaSwaps 2 noMetaDataClients (startState [''d1''] 2)
     = Some (Inr (),
         (startState [''d1''] 2)
           \<lparr>trace := [KavaGetSwaps 1 2 (Inr (Some [kavaSwapA, kavaSwapB])),
                      KavaGetSwaps 2 2 (Inr (Some [])),
                      Console (KavaCount 2),
                      KavaLoadMetaData (Inl (Error ''timeout'')),
                      Console (Exn (Error ''timeout''))]\<rparr>)"
  "getRefundableKavaSwaps_v2 2 noMetaDataClients_v2 (startState [''d1''] 2)
     = Some (Inr [''hkb'', ''gkb''],
         (startState [''d1''] 2)
           \<lparr>trace := [KavaGetSwaps 0 2 (Inr (Some [kavaSwapA, kavaSwapB])),
                      KavaGetSwaps 2 2 (Inr (Some []))]\<rparr>)"
  "refundKavaSwaps_v2 2 noMetaDataClients_v2 (startState [''d1''] 2)
     = Some (Inr (),
         (startState [''d1''] 2)
           \<lparr>trace := [KavaGetSwaps 0 2 (Inr (Some [kavaSwapA, kavaSwapB])),
                      KavaGetSwaps 2 2 (Inr (Some [])),
                      Console (KavaCount 2),
                      KavaLoadMetaData (Inl (Error ''timeout'')),
                      Console (Exn (Error ''timeout''))]\<rparr>)"
  by (simp_all add: eval_defs noMetaDataClients_v2_def)

text \<open>
  The third premise of the rules of \<open>emptyPageEnds\<close> and \<open>emptyPageEnds_v2\<close> is no
  assumption of its own: a loop that reaches the empty batch stops there, in
  refund.js with its local variables as they are, in the later revision with the
  offsets set back.
\<close>

lemma emptyPageEnds_reach:
  assumes r: "loopReach k (bnbScanBody c i d) L s = Some (L', s')"
    and e: "fst (bnbQuery c i d L' s') = Inr (Some [])"
    and rest: "emptyPageEnds c i ds L' (snd (bnbQuery c i d L' s')) sf"
  shows "emptyPageEnds c i (d # ds) L s sf"
proof -
  from e have b: "bnbScanBody c i d L' s' = (Break L', snd (bnbQuery c i d L' s'))"
    by (auto simp: bnbScanBody_def split: prod.splits)
  have "whileLoop (Suc k) (bnbScanBody c i d) L s = Some (Break L', snd (bnbQuery c i d L' s'))"
    using loopReach_stop[OF r b] by simp
  from emptyPageEnds_Cons[OF r e this rest] show ?thesis .
qed

lemma emptyPageEnds_v2_reach:
  assumes r: "loopReach k (bnbScanBody_v2 c i h d) L s = Some (L', s')"
    and e: "fst (bnbQuery c i d L' s') = Inr (Some [])"
    and rest: "emptyPageEnds_v2 c i h ds (resetOffsets (snd (bnbQuery c i d L' s')) L')
                 (snd (bnbQuery c i d L' s')) sf"
  shows "emptyPageEnds_v2 c i h (d # ds) L s sf"
proof -
  let ?s = "snd (bnbQuery c i d L' s')"
  from e have b: "bnbScanBody_v2 c i h d L' s' = (Break (resetOffsets ?s L'), ?s)"
    by (auto simp: bnbScanBody_v2_def split: prod.splits)
  have "whileLoop (Suc k) (bnbScanBody_v2 c i h d) L s = Some (Break (resetOffsets ?s L'), ?s)"
    using loopReach_stop[OF r b] by simp
  from emptyPageEnds_v2_Cons[OF r e this rest] show ?thesis .
qed

lemma emptyPageEnds_total:
  "emptyPageEnds c i ds L s sf \<Longrightarrow>
   \<exists>n0 Lf. \<forall>n\<ge>n0. bnbScanDeputies n c i ds L s = Some (Break Lf, sf)"
proof (induction rule: emptyPageEnds.induct)
  case (emptyPageEnds_Nil L s)
  then show ?case by simp
next
  case (emptyPageEnds_Cons k d L s L' s' L1 s1 ds sf)
  from emptyPageEnds_Cons.IH obtain n0 Lf where
    r: "\<forall>n\<ge>n0. bnbScanDeputies n c i ds L1 s1 = Some (Break Lf, sf)" by blast
  have "\<forall>n\<ge>max (Suc k) n0. bnbScanDeputies n c i (d # ds) L s = Some (Break Lf, sf)"
  proof (intro allI impI)
    fix n assume n: "max (Suc k) n0 \<le> n"
    then have "Suc k \<le> n" by simp
    from whileLoop_mono[OF emptyPageEnds_Cons.hyps(3) this]
    have "whileLoop n (bnbScanBody c i d) L s = Some (Break L1, s1)" .
    with r n show "bnbScanDeputies n c i (d # ds) L s = Some (Break Lf, sf)" by simp
  qed
  then show ?case by blast
qed

lemma emptyPageEnds_v2_total:
  "emptyPageEnds_v2 c i h ds L s sf \<Longrightarrow>
   \<exists>n0 Lf. \<forall>n\<ge>n0. asyncForEach ds (bnbScanDeputy_v2 n c i h) L s = Some (Inr Lf, sf)"
proof (induction rule: emptyPageEnds_v2.induct)
  case (emptyPageEnds_v2_Nil L s)
  then show ?case by simp
next
  case (emptyPageEnds_v2_Cons k d L s L' s' L1 s1 ds sf)
  from emptyPageEnds_v2_Cons.IH obtain n0 Lf where
    r: "\<forall>n\<ge>n0. asyncForEach ds (bnbScanDeputy_v2 n c i h) L1 s1 = Some (Inr Lf, sf)" by blast
  have "\<forall>n\<ge>max (Suc k) n0. asyncForEach (d # ds) (bnbScanDeputy_v2 n c i h) L s = Some (Inr Lf, sf)"
  proof (intro allI impI)
    fix n assume n: "max (Suc k) n0 \<le> n"
    then have "Suc k \<le> n" by simp
    from whileLoop_mono[OF emptyPageEnds_v2_Cons.hyps(3) this]
    have "whileLoop n (bnbScanBody_v2 c i h d) L s = Some (Break L1, s1)" .
    with r n show "asyncForEach (d # ds) (bnbScanDeputy_v2 n c i h) L s = Some (Inr Lf, sf)"
      by (simp add: bnbScanDeputy_v2_def)
  qed
  then show ?case by blast
qed

lemma getRefundableBinanceSwaps_total:
  assumes "emptyPageEnds c i (deputyAddresses (self s)) (bnbLocalsInit s) s sf"
  shows "\<exists>n0. \<forall>n\<ge>n0. getRefundableBinanceSwaps n c i s
           = Some (Inr (Some (map swapId (filter (\<lambda>x. status x = 1) (bnbFetched (newEvents s sf))))), sf)"
proof -
  from emptyPageEnds_total[OF assms] obtain n0 Lf where
    r: "\<forall>n\<ge>n0. bnbScanDeputies n c i (deputyAddresses (self s)) (bnbLocalsInit s) s = Some (Break Lf, sf)"
    by blast
  have "\<forall>n\<ge>n0. getRefundableBinanceSwaps n c i s
           = Some (Inr (Some (map swapId (filter (\<lambda>x. status x = 1) (bnbFetched (newEvents s sf))))), sf)"
  proof (intro allI impI)
    fix n assume "n0 \<le> n"
    with r have g: "getRefundableBinanceSwaps n c i s = Some (Inr (Some (map swapId (openSwaps Lf))), sf)"
      by (simp add: getRefundableBinanceSwaps_def)
    from getRefundableBinanceSwaps_result[OF g] g
    show "getRefundableBinanceSwaps n c i s
           = Some (Inr (Some (map swapId (filter (\<lambda>x. status x = 1) (bnbFetched (newEvents s sf))))), sf)"
      by simp
  qed
  then show ?thesis by blast
qed

lemma getRefundableBinanceSwaps_v2_total:
  assumes q: "call (nodeInfo c) BnbNodeInfo s = (Inr h, s0)"
    and e: "emptyPageEnds_v2 c i h (deputyAddresses (self s)) (bnbLocalsInit s) s0 sf"
  shows "\<exists>n0. \<forall>n\<ge>n0. getRefundableBinanceSwaps_v2 n c i s
           = Some (Inr (map swapId (filter (refundable_v2 h) (bnbFetched (newEvents s sf)))), sf)"
proof -
  from q have s0: "self s0 = self s" by (auto simp: call_eq)
  from emptyPageEnds_v2_total[OF e] obtain n0 Lf where
    r: "\<forall>n\<ge>n0. asyncForEach (deputyAddresses (self s)) (bnbScanDeputy_v2 n c i h) (bnbLocalsInit s) s0
          = Some (Inr Lf, sf)"
    by blast
  from q have t0: "trace s0 = trace s @ [BnbNodeInfo (Inr h)]" by (auto simp: call_eq)
  have "\<forall>n\<ge>n0. getRefundableBinanceSwaps_v2 n c i s
           = Some (Inr (map swapId (filter (refundable_v2 h) (bnbFetched (newEvents s sf)))), sf)"
  proof (intro allI impI)
    fix n assume "n0 \<le> n"
    with r have f: "asyncForEach (deputyAddresses (self s)) (bnbScanDeputy_v2 n c i h) (bnbLocalsInit s) s0
          = Some (Inr Lf, sf)" by simp
    with q s0 have g: "getRefundableBinanceSwaps_v2 n c i s = Some (Inr (map swapId (openSwaps Lf)), sf)"
      by (simp add: getRefundableBinanceSwaps_v2_def)
    from bnbForEach_v2_collect[OF f] obtain es where
      x: "trace sf = trace s0 @ es" "openSwaps Lf = filter (refundable_v2 h) (bnbFetched es)"
      by (auto simp: bnbLocalsInit_def)
    from x(1) t0 have "trace sf = trace s @ (BnbNodeInfo (Inr h) # es)" by simp
    then have "newEvents s sf = BnbNodeInfo (Inr h) # es" by (rule newEvents_append)
    with x(2) g show "getRefundableBinanceSwaps_v2 n c i s
           = Some (Inr (map swapId (filter (refundable_v2 h) (bnbFetched (newEvents s sf)))), sf)"
      by simp
  qed
  then show ?thesis by blast
qed

lemma getRefundableKavaSwaps_total:
  assumes r: "loopReach k (kavaScanBody c) \<lparr>expiredSwaps = [], page = 1\<rparr> s = Some (K', s')"
    and e: "fst (kavaQuery c (page K') s') = Inr (Some [])"
  shows "\<exists>sf. \<forall>n>k. getRefundableKavaSwaps n c s
           = Some (Inr (Some (swapIDsOf c (kavaFetched (newEvents s sf)))), sf)"
proof -
  from kava_loop_result[OF r e] obtain Kf sf where
    t: "\<forall>n>k. whileLoop n (kavaScanBody c) \<lparr>expiredSwaps = [], page = 1\<rparr> s = Some (Break Kf, sf)"
    and x: "expiredSwaps Kf = kavaFetched (newEvents s sf)" by auto
  then have "\<forall>n>k. getRefundableKavaSwaps n c s
           = Some (Inr (Some (swapIDsOf c (kavaFetched (newEvents s sf)))), sf)"
    by (simp add: getRefundableKavaSwaps_def)
  then show ?thesis by blast
qed

lemma getRefundableKavaSwaps_v2_total:
  assumes r: "loopReach k (kavaScanBody_v2 c) \<lparr>expiredSwaps_v2 = [], offset = 0\<rparr> s = Some (K', s')"
    and e: "fst (kavaQuery_v2 c (offset K') s') = Inr (Some [])"
  shows "\<exists>sf. \<forall>n>k. getRefundableKavaSwaps_v2 n c s
           = Some (Inr (swapIDsOf c (kavaFetched (newEvents s sf))), sf)"
proof -
  from kava_v2_loop_result[OF r e] obtain Kf sf where
    t: "\<forall>n>k. whileLoop n (kavaScanBody_v2 c) \<lparr>expiredSwaps_v2 = [], offset = 0\<rparr> s = Some (Break Kf, sf)"
    and x: "expiredSwaps_v2 Kf = kavaFetched (newEvents s sf)" by auto
  then have "\<forall>n>k. getRefundableKavaSwaps_v2 n c s
           = Some (Inr (swapIDsOf c (kavaFetched (newEvents s sf))), sf)"
    by (simp add: getRefundableKavaSwaps_v2_def)
  then show ?thesis by blast
qed

lemma getRefundableKavaSwaps_None:
  "(getRefundableKavaSwaps n c s = None)
     = (whileLoop n (kavaScanBody c) \<lparr>expiredSwaps = [], page = 1\<rparr> s = None)"
  by (auto simp: getRefundableKavaSwaps_def split: option.splits ctl.splits prod.splits
      dest: whileLoop_not_Continue)

lemma getRefundableKavaSwaps_v2_None:
  "(getRefundableKavaSwaps_v2 n c s = None)
     = (whileLoop n (kavaScanBody_v2 c) \<lparr>expiredSwaps_v2 = [], offset = 0\<rparr> s = None)"
  by (auto simp: getRefundableKavaSwaps_v2_def split: option.splits ctl.splits prod.splits
      dest: whileLoop_not_Continue)

section \<open>The claims\<close>




text \<open>
  C2 on a failing input. Deputy \<open>d1\<close> created an open swap that expires at height
  900 and the chain is at height 500. The scan of refund.js filters on the status
  alone and returns the identifier of the swap; the later revision, which also
  compares the expiry height with the height the node reports, returns nothing.
\<close>

theorem refund_js_takes_unexpired_swap:
  "getRefundableBinanceSwaps 2 oneSwapClients True (startState [''d1''] 1)
     = Some (Inr (Some [''a'']),
         (startState [''d1''] 1)
           \<lparr>trace := [BnbGetSwapByCreator ''d1'' 1 0 (Inr (Some [openSwap ''a'' 900])),
                      BnbGetSwapByCreator ''d1'' 1 1 (Inr (Some []))]\<rparr>)
 \<and> getRefundableBinanceSwaps_v2 2 oneSwapClients True (startState [''d1''] 1)
     = Some (Inr [],
         (startState [''d1''] 1)
           \<lparr>trace := [BnbNodeInfo (Inr (Some 500)),
                      BnbGetSwapByCreator ''d1'' 1 0 (Inr (Some [openSwap ''a'' 900])),
                      BnbGetSwapByCreator ''d1'' 1 1 (Inr (Some []))]\<rparr>)"
  by (simp add: eval_defs)

text \<open>
  C3 on a failing input. Every listing query to Kava throws while deputy \<open>d1\<close> has
  an expired swap on Binance Chain. In refund.js the scan of Kava returns
  \<open>undefined\<close>, reading its length throws, and the cycle ends with that error
  before any call to Binance Chain. The later revision returns the empty list and
  goes on to refund the swap on Binance Chain.
\<close>

theorem kava_query_error_stops_cycle:
  "refundSwaps 2 kavaDownClients (startState [''d1''] 1)
     = Some (Inl (TypeError ''swapIDs is undefined''),
         (startState [''d1''] 1)
           \<lparr>trace := [KavaGetSwaps 1 1 (Inl (Error ''timeout'')), Console KavaQueryFailed]\<rparr>)
 \<and> refundSwaps_v2 2 kavaDownClients (startState [''d1''] 1)
     = Some (Inr (),
         (startState [''d1''] 1)
           \<lparr>trace := [KavaGetSwaps 0 1 (Inl (Error ''timeout'')), Console KavaQueryFailed,
                      Console (KavaCount 0), KavaLoadMetaData (Inr 40)] @ drop 8 oneEachTrace_v2\<rparr>)"
  by (simp add: eval_defs bug_defs oneEachTrace_v2_def)

text \<open>
  C4 on a failing input. Binance Chain holds no swap and the listing by recipient
  throws. The scan of refund.js writes the error to the console and returns
  \<open>undefined\<close>, not the empty list; \<open>concat\<close> appends it to the incoming list as
  one element, and the submitter attempts one refund, without a swap identifier.
\<close>

theorem failed_scan_returns_undefined:
  "getRefundableBinanceSwaps 2 recipientDownClients False (startState [''d1''] 1)
     = Some (Inr None,
         (startState [''d1''] 1)
           \<lparr>trace := [BnbGetSwapByRecipient ''d1'' 1 0 (Inl (Error ''timeout'')),
                      Console (BnbQueryFailed False)]\<rparr>)
 \<and> refundBinanceChainSwaps 2 recipientDownClients (startState [''d1''] 1)
     = Some (Inr (),
         (startState [''d1''] 1)
           \<lparr>trace := [BnbGetSwapByCreator ''d1'' 1 0 (Inr (Some [])),
                      BnbGetSwapByRecipient ''d1'' 1 0 (Inl (Error ''timeout'')),
                      Console (BnbQueryFailed False),
                      Console (BnbCount 1),
                      Console (Refunding None),
                      BnbRefundHTLT ''bnb1bot'' None (Inl (Error ''swap id missing'')),
                      Console (Exn (Error ''swap id missing'')),
                      Sleep 3000]\<rparr>)"
  by (simp add: eval_defs bug_defs)

text \<open>
  C5. In \<open>refundKavaSwaps\<close>, in both revisions, whenever the scan has returned a
  list of swap identifiers: the run loads the account data exactly once, no
  submission comes before that, and if the load answers with the sequence \<open>base\<close>
  then the submissions that follow are, in order, the \<open>i\<close>-th identifier with the
  sequence \<open>base + i\<close>. This holds for every client, whatever \<open>refundSwap\<close> answers
  or throws. The sequences are stated where \<open>Number(accountData.sequence) + i\<close> is
  exact: for a sequence that is not negative and with \<open>base\<close> plus the number of
  identifiers at most \<open>maxSafe\<close>, which is \<open>2 ^ 53\<close>.
\<close>

theorem kava_sequence_numbers:
  "(getRefundableKavaSwaps fuel c s = Some (Inr (Some swapIDs), s1) \<and>
    refundKavaSwaps fuel c s = Some (r, s') \<longrightarrow>
      (\<exists>pre r0 post. newEvents s s' = pre @ KavaLoadMetaData r0 # post \<and>
         metaDataLoads pre = [] \<and> kavaSubmissions pre = [] \<and> metaDataLoads post = [] \<and>
         (\<forall>base. r0 = Inr base \<and> 0 \<le> base \<and> base + int (length swapIDs) \<le> maxSafe \<longrightarrow>
            kavaSubmissions post = map (\<lambda>i. (swapIDs ! i, base + int i)) [0..<length swapIDs])))
 \<and> (getRefundableKavaSwaps_v2 fuel c s = Some (Inr swapIDs2, s2) \<and>
    refundKavaSwaps_v2 fuel c s = Some (r2, s2') \<longrightarrow>
      (\<exists>pre r0 post. newEvents s s2' = pre @ KavaLoadMetaData r0 # post \<and>
         metaDataLoads pre = [] \<and> kavaSubmissions pre = [] \<and> metaDataLoads post = [] \<and>
         (\<forall>base. r0 = Inr base \<and> 0 \<le> base \<and> base + int (length swapIDs2) \<le> maxSafe \<longrightarrow>
            kavaSubmissions post = map (\<lambda>i. (swapIDs2 ! i, base + int i)) [0..<length swapIDs2])))"
proof (intro conjI impI; elim conjE)
  assume a: "getRefundableKavaSwaps fuel c s = Some (Inr (Some swapIDs), s1)"
    "refundKavaSwaps fuel c s = Some (r, s')"
  from refundKavaSwaps_rounds[OF a] obtain r0 post where
    p: "list_all isScanEvent (newEvents s s1)"
       "newEvents s s' = newEvents s s1 @ Console (KavaCount (length swapIDs)) # KavaLoadMetaData r0 # post"
       "case r0 of
          Inl e \<Rightarrow> post = [Console (Exn e)]
        | Inr base \<Rightarrow> (\<exists>qs rs. length qs = length swapIDs \<and> length rs = length swapIDs \<and>
             post = concat (map (\<lambda>(x, q, a). kavaRound 7000 x q a) (zip swapIDs (zip qs rs))) \<and>
             (\<bar>base\<bar> + int (length swapIDs) \<le> maxSafe \<longrightarrow> qs = map (\<lambda>k. base + int k) [0..<length swapIDs]))"
    by blast
  let ?pre = "newEvents s s1 @ [Console (KavaCount (length swapIDs))]"
  have "newEvents s s' = ?pre @ KavaLoadMetaData r0 # post" using p(2) by simp
  moreover have "metaDataLoads ?pre = []" "kavaSubmissions ?pre = []"
    using scanEvents_silent[OF p(1)] by (simp_all add: proj_append)
  moreover have "metaDataLoads post = []"
    using p(3) by (cases r0) (auto simp: kavaRounds_projections)
  moreover have "\<forall>base. r0 = Inr base \<and> 0 \<le> base \<and> base + int (length swapIDs) \<le> maxSafe \<longrightarrow>
            kavaSubmissions post = map (\<lambda>i. (swapIDs ! i, base + int i)) [0..<length swapIDs]"
    using p(3) by (auto simp: kavaRounds_projections zip3_fst zip_map_upt)
  ultimately show "\<exists>pre r0 post. newEvents s s' = pre @ KavaLoadMetaData r0 # post \<and>
         metaDataLoads pre = [] \<and> kavaSubmissions pre = [] \<and> metaDataLoads post = [] \<and>
         (\<forall>base. r0 = Inr base \<and> 0 \<le> base \<and> base + int (length swapIDs) \<le> maxSafe \<longrightarrow>
            kavaSubmissions post = map (\<lambda>i. (swapIDs ! i, base + int i)) [0..<length swapIDs])"
    by (intro exI[of _ ?pre] exI[of _ r0] exI[of _ post]) blast
next
  assume a: "getRefundableKavaSwaps_v2 fuel c s = Some (Inr swapIDs2, s2)"
    "refundKavaSwaps_v2 fuel c s = Some (r2, s2')"
  from refundKavaSwaps_v2_rounds[OF a] obtain r0 post where
    p: "list_all isScanEvent (newEvents s s2)"
       "newEvents s s2' = newEvents s s2 @ Console (KavaCount (length swapIDs2)) # KavaLoadMetaData r0 # post"
       "case r0 of
          Inl e \<Rightarrow> post = [Console (Exn e)]
        | Inr base \<Rightarrow> (\<exists>qs rs. length qs = length swapIDs2 \<and> length rs = length swapIDs2 \<and>
             post = concat (map (\<lambda>(x, q, a). kavaRound 25000 x q a) (zip swapIDs2 (zip qs rs))) \<and>
             (\<bar>base\<bar> + int (length swapIDs2) \<le> maxSafe \<longrightarrow> qs = map (\<lambda>k. base + int k) [0..<length swapIDs2]))"
    by blast
  let ?pre = "newEvents s s2 @ [Console (KavaCount (length swapIDs2))]"
  have "newEvents s s2' = ?pre @ KavaLoadMetaData r0 # post" using p(2) by simp
  moreover have "metaDataLoads ?pre = []" "kavaSubmissions ?pre = []"
    using scanEvents_silent[OF p(1)] by (simp_all add: proj_append)
  moreover have "metaDataLoads post = []"
    using p(3) by (cases r0) (auto simp: kavaRounds_projections)
  moreover have "\<forall>base. r0 = Inr base \<and> 0 \<le> base \<and> base + int (length swapIDs2) \<le> maxSafe \<longrightarrow>
            kavaSubmissions post = map (\<lambda>i. (swapIDs2 ! i, base + int i)) [0..<length swapIDs2]"
    using p(3) by (auto simp: kavaRounds_projections zip3_fst zip_map_upt)
  ultimately show "\<exists>pre r0 post. newEvents s s2' = pre @ KavaLoadMetaData r0 # post \<and>
         metaDataLoads pre = [] \<and> kavaSubmissions pre = [] \<and> metaDataLoads post = [] \<and>
         (\<forall>base. r0 = Inr base \<and> 0 \<le> base \<and> base + int (length swapIDs2) \<le> maxSafe \<longrightarrow>
            kavaSubmissions post = map (\<lambda>i. (swapIDs2 ! i, base + int i)) [0..<length swapIDs2])"
    by (intro exI[of _ ?pre] exI[of _ r0] exI[of _ post]) blast
qed

theorem kava_sequence_numbers_witness:
  "getRefundableKavaSwaps 2 rejectingClients (startState [''d1''] 3)
     = Some (Inr (Some [''hkb'', ''gkb'']),
         (startState [''d1''] 3)
           \<lparr>trace := [KavaGetSwaps 1 3 (Inr (Some [kavaSwapA, kavaSwapB])),
                      KavaGetSwaps 2 3 (Inr (Some []))]\<rparr>)
 \<and> refundKavaSwaps 2 rejectingClients (startState [''d1''] 3)
     = Some (Inr (),
         (startState [''d1''] 3)
           \<lparr>trace := [KavaGetSwaps 1 3 (Inr (Some [kavaSwapA, kavaSwapB])),
                      KavaGetSwaps 2 3 (Inr (Some [])),
                      Console (KavaCount 2),
                      KavaLoadMetaData (Inr 40)] @ rejectingKavaRounds 7000\<rparr>)
 \<and> (\<exists>pre post. [KavaGetSwaps 1 3 (Inr (Some [kavaSwapA, kavaSwapB])),
                   KavaGetSwaps 2 3 (Inr (Some [])),
                   Console (KavaCount 2),
                   KavaLoadMetaData (Inr 40)] @ rejectingKavaRounds 7000
                  = pre @ KavaLoadMetaData (Inr 40) # post
        \<and> kavaSubmissions post = [(''hkb'', 40), (''gkb'', 41)])
 \<and> getRefundableKavaSwaps_v2 2 rejectingClients_v2 (startState [''d1''] 3)
     = Some (Inr [''hkb'', ''gkb''],
         (startState [''d1''] 3)
           \<lparr>trace := [KavaGetSwaps 0 3 (Inr (Some [kavaSwapA, kavaSwapB])),
                      KavaGetSwaps 3 3 (Inr (Some []))]\<rparr>)
 \<and> refundKavaSwaps_v2 2 rejectingClients_v2 (startState [''d1''] 3)
     = Some (Inr (),
         (startState [''d1''] 3)
           \<lparr>trace := [KavaGetSwaps 0 3 (Inr (Some [kavaSwapA, kavaSwapB])),
                      KavaGetSwaps 3 3 (Inr (Some [])),
                      Console (KavaCount 2),
                      KavaLoadMetaData (Inr 40)] @ rejectingKavaRounds 25000\<rparr>)
 \<and> (\<exists>pre post. [KavaGetSwaps 0 3 (Inr (Some [kavaSwapA, kavaSwapB])),
                   KavaGetSwaps 3 3 (Inr (Some [])),
                   Console (KavaCount 2),
                   KavaLoadMetaData (Inr 40)] @ rejectingKavaRounds 25000
                  = pre @ KavaLoadMetaData (Inr 40) # post
        \<and> kavaSubmissions post = [(''hkb'', 40), (''gkb'', 41)])"
proof -
  let ?s = "startState [''d1''] 3"
  let ?ids = "[''hkb'', ''gkb'']"
  let ?q1 = "[KavaGetSwaps 1 3 (Inr (Some [kavaSwapA, kavaSwapB])), KavaGetSwaps 2 3 (Inr (Some []))]"
  let ?q2 = "[KavaGetSwaps 0 3 (Inr (Some [kavaSwapA, kavaSwapB])), KavaGetSwaps 3 3 (Inr (Some []))]"
  let ?e1 = "[KavaGetSwaps 1 3 (Inr (Some [kavaSwapA, kavaSwapB])),
                      KavaGetSwaps 2 3 (Inr (Some [])),
                      Console (KavaCount 2),
                      KavaLoadMetaData (Inr 40)] @ rejectingKavaRounds 7000"
  let ?e2 = "[KavaGetSwaps 0 3 (Inr (Some [kavaSwapA, kavaSwapB])),
                      KavaGetSwaps 3 3 (Inr (Some [])),
                      Console (KavaCount 2),
                      KavaLoadMetaData (Inr 40)] @ rejectingKavaRounds 25000"
  let ?s1 = "?s\<lparr>trace := ?q1\<rparr>"
  let ?s' = "?s\<lparr>trace := ?e1\<rparr>"
  let ?s2 = "?s\<lparr>trace := ?q2\<rparr>"
  let ?s2' = "?s\<lparr>trace := ?e2\<rparr>"
  note scan1 = refundKavaSwaps_rejecting(1) and run1 = refundKavaSwaps_rejecting(2)
  note scan2 = refundKavaSwaps_v2_rejecting(1) and run2 = refundKavaSwaps_v2_rejecting(2)
  have n: "newEvents ?s ?s' = ?e1" "newEvents ?s ?s2' = ?e2"
    by (simp_all add: newEvents_def startState_def)
  have l1: "metaDataLoads ?e1 = [Inr 40]" "metaDataLoads ?e2 = [Inr 40]"
    by (simp_all add: rejectingKavaRounds_def)
  have m: "map (\<lambda>i. (?ids ! i, 40 + int i)) [0..<length ?ids] = [(''hkb'', 40), (''gkb'', 41)]"
    by (simp add: upt_conv_Cons)
  have bd: "(0::int) \<le> 40 \<and> 40 + int (length ?ids) \<le> maxSafe" by (simp add: maxSafe_value)
  note t = kava_sequence_numbers[of 2 rejectingClients ?s ?ids ?s1 "Inr ()" ?s' ?ids ?s2 "Inr ()" ?s2']
  have a: "\<exists>pre post. ?e1 = pre @ KavaLoadMetaData (Inr 40) # post
                \<and> kavaSubmissions post = [(''hkb'', 40), (''gkb'', 41)]"
  proof -
    from t scan1 run1 obtain pre r0 post where p: "newEvents ?s ?s' = pre @ KavaLoadMetaData r0 # post"
      "metaDataLoads pre = []" "metaDataLoads post = []"
      "\<forall>base. r0 = Inr base \<and> 0 \<le> base \<and> base + int (length ?ids) \<le> maxSafe \<longrightarrow>
         kavaSubmissions post = map (\<lambda>i. (?ids ! i, base + int i)) [0..<length ?ids]"
      by blast
    from p(1) have p1: "?e1 = pre @ KavaLoadMetaData r0 # post" unfolding n(1) .
    from arg_cong[OF p1, of metaDataLoads] p(2,3) l1(1) have r0: "r0 = Inr 40"
      by (simp add: proj_append)
    with p(4) m bd have "kavaSubmissions post = [(''hkb'', 40), (''gkb'', 41)]" by simp
    with p1 r0 show ?thesis by blast
  qed
  note t2 = kava_sequence_numbers[of 2 rejectingClients_v2 ?s ?ids ?s1 "Inr ()" ?s' ?ids ?s2 "Inr ()" ?s2']
  have b: "\<exists>pre post. ?e2 = pre @ KavaLoadMetaData (Inr 40) # post
                \<and> kavaSubmissions post = [(''hkb'', 40), (''gkb'', 41)]"
  proof -
    from t2 scan2 run2 obtain pre r0 post where p: "newEvents ?s ?s2' = pre @ KavaLoadMetaData r0 # post"
      "metaDataLoads pre = []" "metaDataLoads post = []"
      "\<forall>base. r0 = Inr base \<and> 0 \<le> base \<and> base + int (length ?ids) \<le> maxSafe \<longrightarrow>
         kavaSubmissions post = map (\<lambda>i. (?ids ! i, base + int i)) [0..<length ?ids]"
      by blast
    from p(1) have p1: "?e2 = pre @ KavaLoadMetaData r0 # post" unfolding n(2) .
    from arg_cong[OF p1, of metaDataLoads] p(2,3) l1(2) have r0: "r0 = Inr 40"
      by (simp add: proj_append)
    with p(4) m bd have "kavaSubmissions post = [(''hkb'', 40), (''gkb'', 41)]" by simp
    with p1 r0 show ?thesis by blast
  qed
  from scan1 run1 a scan2 run2 b show ?thesis by blast
qed

text \<open>
  C6, as the code has it. For every batch of swap identifiers that the scans have
  returned, the events after the scans are the count line and then one round of the
  submission loop for each identifier, in order, whatever the submissions answer: a
  round announces the swap, submits it once, writes what came of it and sleeps
  (\<open>kavaRound\<close>, \<open>bnbRound\<close>). A submission that throws has its error written to the
  console in its round; an answer of Binance Chain with a status other than 200
  leaves no line; in both cases the next round follows. On Kava the rounds come
  after \<open>loadMetaData\<close> has answered; when \<open>loadMetaData\<close> throws, its error is
  written to the console and that is the end: no submission is made. No submission
  is made during the scans. For refund.js on Binance Chain the batch is taken when
  both scans have returned a list.
\<close>

theorem one_attempt_per_swap:
  "(getRefundableKavaSwaps fuel c s = Some (Inr (Some ids), s1) \<and>
    refundKavaSwaps fuel c s = Some (r, s') \<longrightarrow>
      kavaSubmissions (newEvents s s1) = [] \<and>
      (\<exists>r0 post. newEvents s s'
            = newEvents s s1 @ Console (KavaCount (length ids)) # KavaLoadMetaData r0 # post \<and>
         (\<forall>e. r0 = Inl e \<longrightarrow> post = [Console (Exn e)]) \<and>
         (\<forall>base. r0 = Inr base \<longrightarrow>
            (\<exists>qs rs. length qs = length ids \<and> length rs = length ids \<and>
               post = concat (map (\<lambda>(x, q, a). kavaRound 7000 x q a) (zip ids (zip qs rs))) \<and>
               kavaSubmissions post = zip ids qs))))
 \<and> (getRefundableKavaSwaps_v2 fuel c s = Some (Inr ids2, s2) \<and>
    refundKavaSwaps_v2 fuel c s = Some (r2, s2') \<longrightarrow>
      kavaSubmissions (newEvents s s2) = [] \<and>
      (\<exists>r0 post. newEvents s s2'
            = newEvents s s2 @ Console (KavaCount (length ids2)) # KavaLoadMetaData r0 # post \<and>
         (\<forall>e. r0 = Inl e \<longrightarrow> post = [Console (Exn e)]) \<and>
         (\<forall>base. r0 = Inr base \<longrightarrow>
            (\<exists>qs rs. length qs = length ids2 \<and> length rs = length ids2 \<and>
               post = concat (map (\<lambda>(x, q, a). kavaRound 25000 x q a) (zip ids2 (zip qs rs))) \<and>
               kavaSubmissions post = zip ids2 qs))))
 \<and> (getRefundableBinanceSwaps fuel c True t = Some (Inr (Some inc), t1) \<and>
    getRefundableBinanceSwaps fuel c False t1 = Some (Inr (Some out), t2) \<and>
    refundBinanceChainSwaps fuel c t = Some (r3, t') \<longrightarrow>
      bnbSubmissions (newEvents t t2) = [] \<and>
      (\<exists>rs. length rs = length (inc @ out) \<and>
         newEvents t t' = newEvents t t2 @ Console (BnbCount (length (inc @ out)))
           # concat (map (\<lambda>(x, a). bnbRound 3000 (bnbChainAddress (self t)) (Some x) a)
                          (zip (inc @ out) rs))) \<and>
      bnbSubmissions (newEvents t t') = map Some (inc @ out))
 \<and> (getRefundableBinanceSwaps_v2 fuel c True t = Some (Inr inc2, u1) \<and>
    getRefundableBinanceSwaps_v2 fuel c False u1 = Some (Inr out2, u2) \<and>
    refundBinanceChainSwaps_v2 fuel c t = Some (r4, u') \<longrightarrow>
      bnbSubmissions (newEvents t u2) = [] \<and>
      (\<exists>rs. length rs = length (inc2 @ out2) \<and>
         newEvents t u' = newEvents t u2 @ Console (BnbCount (length (inc2 @ out2)))
           # concat (map (\<lambda>(x, a). bnbRound 5000 (bnbChainAddress (self t)) (Some x) a)
                          (zip (inc2 @ out2) rs))) \<and>
      bnbSubmissions (newEvents t u') = map Some (inc2 @ out2))"
proof (intro conjI impI; (elim conjE)?)
  assume a: "getRefundableKavaSwaps fuel c s = Some (Inr (Some ids), s1)"
    "refundKavaSwaps fuel c s = Some (r, s')"
  from refundKavaSwaps_rounds[OF a] obtain r0 post where
    p: "list_all isScanEvent (newEvents s s1)"
       "newEvents s s' = newEvents s s1 @ Console (KavaCount (length ids)) # KavaLoadMetaData r0 # post"
       "case r0 of
          Inl e \<Rightarrow> post = [Console (Exn e)]
        | Inr base \<Rightarrow> (\<exists>qs rs. length qs = length ids \<and> length rs = length ids \<and>
             post = concat (map (\<lambda>(x, q, a). kavaRound 7000 x q a) (zip ids (zip qs rs))) \<and>
             (\<bar>base\<bar> + int (length ids) \<le> maxSafe \<longrightarrow> qs = map (\<lambda>k. base + int k) [0..<length ids]))"
    by blast
  show "kavaSubmissions (newEvents s s1) = []" using scanEvents_silent[OF p(1)] by simp
  have "\<forall>e. r0 = Inl e \<longrightarrow> post = [Console (Exn e)]" using p(3) by auto
  moreover have "\<forall>base. r0 = Inr base \<longrightarrow>
            (\<exists>qs rs. length qs = length ids \<and> length rs = length ids \<and>
               post = concat (map (\<lambda>(x, q, a). kavaRound 7000 x q a) (zip ids (zip qs rs))) \<and>
               kavaSubmissions post = zip ids qs)"
  proof (intro allI impI)
    fix base assume "r0 = Inr base"
    with p(3) obtain qs rs where q: "length qs = length ids" "length rs = length ids"
      "post = concat (map (\<lambda>(x, q, a). kavaRound 7000 x q a) (zip ids (zip qs rs)))" by auto
    then have "kavaSubmissions post = zip ids qs" by (simp add: kavaRounds_projections zip3_fst)
    with q show "\<exists>qs rs. length qs = length ids \<and> length rs = length ids \<and>
               post = concat (map (\<lambda>(x, q, a). kavaRound 7000 x q a) (zip ids (zip qs rs))) \<and>
               kavaSubmissions post = zip ids qs" by blast
  qed
  ultimately show "\<exists>r0 post. newEvents s s'
            = newEvents s s1 @ Console (KavaCount (length ids)) # KavaLoadMetaData r0 # post \<and>
         (\<forall>e. r0 = Inl e \<longrightarrow> post = [Console (Exn e)]) \<and>
         (\<forall>base. r0 = Inr base \<longrightarrow>
            (\<exists>qs rs. length qs = length ids \<and> length rs = length ids \<and>
               post = concat (map (\<lambda>(x, q, a). kavaRound 7000 x q a) (zip ids (zip qs rs))) \<and>
               kavaSubmissions post = zip ids qs))"
    using p(2) by blast
next
  assume a: "getRefundableKavaSwaps_v2 fuel c s = Some (Inr ids2, s2)"
    "refundKavaSwaps_v2 fuel c s = Some (r2, s2')"
  from refundKavaSwaps_v2_rounds[OF a] obtain r0 post where
    p: "list_all isScanEvent (newEvents s s2)"
       "newEvents s s2' = newEvents s s2 @ Console (KavaCount (length ids2)) # KavaLoadMetaData r0 # post"
       "case r0 of
          Inl e \<Rightarrow> post = [Console (Exn e)]
        | Inr base \<Rightarrow> (\<exists>qs rs. length qs = length ids2 \<and> length rs = length ids2 \<and>
             post = concat (map (\<lambda>(x, q, a). kavaRound 25000 x q a) (zip ids2 (zip qs rs))) \<and>
             (\<bar>base\<bar> + int (length ids2) \<le> maxSafe \<longrightarrow> qs = map (\<lambda>k. base + int k) [0..<length ids2]))"
    by blast
  show "kavaSubmissions (newEvents s s2) = []" using scanEvents_silent[OF p(1)] by simp
  have "\<forall>e. r0 = Inl e \<longrightarrow> post = [Console (Exn e)]" using p(3) by auto
  moreover have "\<forall>base. r0 = Inr base \<longrightarrow>
            (\<exists>qs rs. length qs = length ids2 \<and> length rs = length ids2 \<and>
               post = concat (map (\<lambda>(x, q, a). kavaRound 25000 x q a) (zip ids2 (zip qs rs))) \<and>
               kavaSubmissions post = zip ids2 qs)"
  proof (intro allI impI)
    fix base assume "r0 = Inr base"
    with p(3) obtain qs rs where q: "length qs = length ids2" "length rs = length ids2"
      "post = concat (map (\<lambda>(x, q, a). kavaRound 25000 x q a) (zip ids2 (zip qs rs)))" by auto
    then have "kavaSubmissions post = zip ids2 qs" by (simp add: kavaRounds_projections zip3_fst)
    with q show "\<exists>qs rs. length qs = length ids2 \<and> length rs = length ids2 \<and>
               post = concat (map (\<lambda>(x, q, a). kavaRound 25000 x q a) (zip ids2 (zip qs rs))) \<and>
               kavaSubmissions post = zip ids2 qs" by blast
  qed
  ultimately show "\<exists>r0 post. newEvents s s2'
            = newEvents s s2 @ Console (KavaCount (length ids2)) # KavaLoadMetaData r0 # post \<and>
         (\<forall>e. r0 = Inl e \<longrightarrow> post = [Console (Exn e)]) \<and>
         (\<forall>base. r0 = Inr base \<longrightarrow>
            (\<exists>qs rs. length qs = length ids2 \<and> length rs = length ids2 \<and>
               post = concat (map (\<lambda>(x, q, a). kavaRound 25000 x q a) (zip ids2 (zip qs rs))) \<and>
               kavaSubmissions post = zip ids2 qs))"
    using p(2) by blast
next
  assume a: "getRefundableBinanceSwaps fuel c True t = Some (Inr (Some inc), t1)"
    "getRefundableBinanceSwaps fuel c False t1 = Some (Inr (Some out), t2)"
    "refundBinanceChainSwaps fuel c t = Some (r3, t')"
  from refundBinanceChainSwaps_rounds[OF a] obtain rs where
    p: "list_all isScanEvent (newEvents t t2)" "length rs = length (inc @ out)"
       "newEvents t t' = newEvents t t2 @ Console (BnbCount (length (inc @ out)))
           # concat (map (\<lambda>(x, a). bnbRound 3000 (bnbChainAddress (self t)) (Some x) a)
                          (zip (inc @ out) rs))"
    by blast
  show "bnbSubmissions (newEvents t t2) = []" using scanEvents_silent[OF p(1)] by simp
  then show "bnbSubmissions (newEvents t t') = map Some (inc @ out)"
    unfolding p(3) using p(2)
    by (simp add: proj_append bnbRounds_projections[where f = Some] zip2_fst del: append_assoc map_append)
  from p(2,3) show "\<exists>rs. length rs = length (inc @ out) \<and>
         newEvents t t' = newEvents t t2 @ Console (BnbCount (length (inc @ out)))
           # concat (map (\<lambda>(x, a). bnbRound 3000 (bnbChainAddress (self t)) (Some x) a)
                          (zip (inc @ out) rs))" by blast
next
  assume a: "getRefundableBinanceSwaps_v2 fuel c True t = Some (Inr inc2, u1)"
    "getRefundableBinanceSwaps_v2 fuel c False u1 = Some (Inr out2, u2)"
    "refundBinanceChainSwaps_v2 fuel c t = Some (r4, u')"
  from refundBinanceChainSwaps_v2_rounds[OF a] obtain rs where
    p: "list_all isScanEvent (newEvents t u2)" "length rs = length (inc2 @ out2)"
       "newEvents t u' = newEvents t u2 @ Console (BnbCount (length (inc2 @ out2)))
           # concat (map (\<lambda>(x, a). bnbRound 5000 (bnbChainAddress (self t)) (Some x) a)
                          (zip (inc2 @ out2) rs))"
    by blast
  show "bnbSubmissions (newEvents t u2) = []" using scanEvents_silent[OF p(1)] by simp
  then show "bnbSubmissions (newEvents t u') = map Some (inc2 @ out2)"
    unfolding p(3) using p(2)
    by (simp add: proj_append bnbRounds_projections[where f = Some] zip2_fst del: append_assoc map_append)
  from p(2,3) show "\<exists>rs. length rs = length (inc2 @ out2) \<and>
         newEvents t u' = newEvents t u2 @ Console (BnbCount (length (inc2 @ out2)))
           # concat (map (\<lambda>(x, a). bnbRound 5000 (bnbChainAddress (self t)) (Some x) a)
                          (zip (inc2 @ out2) rs))" by blast
qed

theorem one_attempt_per_swap_witness:
  "refundKavaSwaps 2 rejectingClients (startState [''d1''] 3)
     = Some (Inr (),
         (startState [''d1''] 3)
           \<lparr>trace := [KavaGetSwaps 1 3 (Inr (Some [kavaSwapA, kavaSwapB])),
                      KavaGetSwaps 2 3 (Inr (Some [])),
                      Console (KavaCount 2),
                      KavaLoadMetaData (Inr 40)] @ rejectingKavaRounds 7000\<rparr>)
 \<and> (\<exists>qs rs. length qs = length [''hkb'', ''gkb''] \<and> length rs = length [''hkb'', ''gkb''] \<and>
        rejectingKavaRounds 7000
          = concat (map (\<lambda>(x, q, a). kavaRound 7000 x q a) (zip [''hkb'', ''gkb''] (zip qs rs))) \<and>
        kavaSubmissions (rejectingKavaRounds 7000) = zip [''hkb'', ''gkb''] qs)
 \<and> refundKavaSwaps_v2 2 rejectingClients_v2 (startState [''d1''] 3)
     = Some (Inr (),
         (startState [''d1''] 3)
           \<lparr>trace := [KavaGetSwaps 0 3 (Inr (Some [kavaSwapA, kavaSwapB])),
                      KavaGetSwaps 3 3 (Inr (Some [])),
                      Console (KavaCount 2),
                      KavaLoadMetaData (Inr 40)] @ rejectingKavaRounds 25000\<rparr>)
 \<and> (\<exists>qs rs. length qs = length [''hkb'', ''gkb''] \<and> length rs = length [''hkb'', ''gkb''] \<and>
        rejectingKavaRounds 25000
          = concat (map (\<lambda>(x, q, a). kavaRound 25000 x q a) (zip [''hkb'', ''gkb''] (zip qs rs))) \<and>
        kavaSubmissions (rejectingKavaRounds 25000) = zip [''hkb'', ''gkb''] qs)
 \<and> refundKavaSwaps 2 noMetaDataClients (startState [''d1''] 2)
     = Some (Inr (),
         (startState [''d1''] 2)
           \<lparr>trace := [KavaGetSwaps 1 2 (Inr (Some [kavaSwapA, kavaSwapB])),
                      KavaGetSwaps 2 2 (Inr (Some [])),
                      Console (KavaCount 2),
                      KavaLoadMetaData (Inl (Error ''timeout'')),
                      Console (Exn (Error ''timeout''))]\<rparr>)
 \<and> refundKavaSwaps_v2 2 noMetaDataClients_v2 (startState [''d1''] 2)
     = Some (Inr (),
         (startState [''d1''] 2)
           \<lparr>trace := [KavaGetSwaps 0 2 (Inr (Some [kavaSwapA, kavaSwapB])),
                      KavaGetSwaps 2 2 (Inr (Some [])),
                      Console (KavaCount 2),
                      KavaLoadMetaData (Inl (Error ''timeout'')),
                      Console (Exn (Error ''timeout''))]\<rparr>)
 \<and> refundBinanceChainSwaps 2 rejectingClients (startState [''d1''] 3)
     = Some (Inr (),
         (startState [''d1''] 3)
           \<lparr>trace := [BnbGetSwapByCreator ''d1'' 3 0
                        (Inr (Some [openSwap ''a'' 10, openSwap ''b'' 20, openSwap ''c'' 30])),
                      BnbGetSwapByCreator ''d1'' 3 3 (Inr (Some [])),
                      BnbGetSwapByRecipient ''d1'' 3 0 (Inr (Some [])),
                      Console (BnbCount 3)] @ rejectingBnbRounds 3000\<rparr>)
 \<and> (\<exists>rs. length rs = length ([''a'', ''b'', ''c''] @ []) \<and>
        rejectingBnbRounds 3000
          = concat (map (\<lambda>(x, a). bnbRound 3000 ''bnb1bot'' (Some x) a) (zip ([''a'', ''b'', ''c''] @ []) rs)))
 \<and> bnbSubmissions ([BnbGetSwapByCreator ''d1'' 3 0
                        (Inr (Some [openSwap ''a'' 10, openSwap ''b'' 20, openSwap ''c'' 30])),
                      BnbGetSwapByCreator ''d1'' 3 3 (Inr (Some [])),
                      BnbGetSwapByRecipient ''d1'' 3 0 (Inr (Some [])),
                      Console (BnbCount 3)] @ rejectingBnbRounds 3000)
      = map Some ([''a'', ''b'', ''c''] @ [])
 \<and> refundBinanceChainSwaps_v2 2 rejectingClients_v2 (startState [''d1''] 3)
     = Some (Inr (),
         (startState [''d1''] 3)
           \<lparr>trace := [BnbNodeInfo (Inr (Some 500)),
                      BnbGetSwapByCreator ''d1'' 3 0
                        (Inr (Some [openSwap ''a'' 10, openSwap ''b'' 20, openSwap ''c'' 30])),
                      BnbGetSwapByCreator ''d1'' 3 3 (Inr (Some [])),
                      BnbNodeInfo (Inr (Some 500)),
                      BnbGetSwapByRecipient ''d1'' 3 0 (Inr (Some [])),
                      Console (BnbCount 3)] @ rejectingBnbRounds 5000\<rparr>)
 \<and> (\<exists>rs. length rs = length ([''a'', ''b'', ''c''] @ []) \<and>
        rejectingBnbRounds 5000
          = concat (map (\<lambda>(x, a). bnbRound 5000 ''bnb1bot'' (Some x) a) (zip ([''a'', ''b'', ''c''] @ []) rs)))
 \<and> bnbSubmissions ([BnbNodeInfo (Inr (Some 500)),
                      BnbGetSwapByCreator ''d1'' 3 0
                        (Inr (Some [openSwap ''a'' 10, openSwap ''b'' 20, openSwap ''c'' 30])),
                      BnbGetSwapByCreator ''d1'' 3 3 (Inr (Some [])),
                      BnbNodeInfo (Inr (Some 500)),
                      BnbGetSwapByRecipient ''d1'' 3 0 (Inr (Some [])),
                      Console (BnbCount 3)] @ rejectingBnbRounds 5000)
      = map Some ([''a'', ''b'', ''c''] @ [])"
proof -
  let ?s = "startState [''d1''] 3"
  let ?sm = "startState [''d1''] 2"
  let ?ids = "[''hkb'', ''gkb'']"
  let ?abc = "[openSwap ''a'' 10, openSwap ''b'' 20, openSwap ''c'' 30]"
  let ?q1 = "[KavaGetSwaps 1 3 (Inr (Some [kavaSwapA, kavaSwapB])), KavaGetSwaps 2 3 (Inr (Some []))]"
  let ?q2 = "[KavaGetSwaps 0 3 (Inr (Some [kavaSwapA, kavaSwapB])), KavaGetSwaps 3 3 (Inr (Some []))]"
  let ?n1 = "[KavaGetSwaps 1 2 (Inr (Some [kavaSwapA, kavaSwapB])), KavaGetSwaps 2 2 (Inr (Some []))]"
  let ?n2 = "[KavaGetSwaps 0 2 (Inr (Some [kavaSwapA, kavaSwapB])), KavaGetSwaps 2 2 (Inr (Some []))]"
  let ?e1 = "[KavaGetSwaps 1 3 (Inr (Some [kavaSwapA, kavaSwapB])),
                      KavaGetSwaps 2 3 (Inr (Some [])),
                      Console (KavaCount 2),
                      KavaLoadMetaData (Inr 40)] @ rejectingKavaRounds 7000"
  let ?e2 = "[KavaGetSwaps 0 3 (Inr (Some [kavaSwapA, kavaSwapB])),
                      KavaGetSwaps 3 3 (Inr (Some [])),
                      Console (KavaCount 2),
                      KavaLoadMetaData (Inr 40)] @ rejectingKavaRounds 25000"
  let ?f1 = "[KavaGetSwaps 1 2 (Inr (Some [kavaSwapA, kavaSwapB])),
                      KavaGetSwaps 2 2 (Inr (Some [])),
                      Console (KavaCount 2),
                      KavaLoadMetaData (Inl (Error ''timeout'')),
                      Console (Exn (Error ''timeout''))]"
  let ?f2 = "[KavaGetSwaps 0 2 (Inr (Some [kavaSwapA, kavaSwapB])),
                      KavaGetSwaps 2 2 (Inr (Some [])),
                      Console (KavaCount 2),
                      KavaLoadMetaData (Inl (Error ''timeout'')),
                      Console (Exn (Error ''timeout''))]"
  let ?b1 = "[BnbGetSwapByCreator ''d1'' 3 0 (Inr (Some ?abc)),
                      BnbGetSwapByCreator ''d1'' 3 3 (Inr (Some []))]"
  let ?b2 = "[BnbGetSwapByCreator ''d1'' 3 0 (Inr (Some ?abc)),
                      BnbGetSwapByCreator ''d1'' 3 3 (Inr (Some [])),
                      BnbGetSwapByRecipient ''d1'' 3 0 (Inr (Some []))]"
  let ?b3 = "[BnbGetSwapByCreator ''d1'' 3 0 (Inr (Some ?abc)),
                      BnbGetSwapByCreator ''d1'' 3 3 (Inr (Some [])),
                      BnbGetSwapByRecipient ''d1'' 3 0 (Inr (Some [])),
                      Console (BnbCount 3)] @ rejectingBnbRounds 3000"
  let ?c1 = "[BnbNodeInfo (Inr (Some 500)),
                      BnbGetSwapByCreator ''d1'' 3 0 (Inr (Some ?abc)),
                      BnbGetSwapByCreator ''d1'' 3 3 (Inr (Some []))]"
  let ?c2 = "[BnbNodeInfo (Inr (Some 500)),
                      BnbGetSwapByCreator ''d1'' 3 0 (Inr (Some ?abc)),
                      BnbGetSwapByCreator ''d1'' 3 3 (Inr (Some [])),
                      BnbNodeInfo (Inr (Some 500)),
                      BnbGetSwapByRecipient ''d1'' 3 0 (Inr (Some []))]"
  let ?c3 = "[BnbNodeInfo (Inr (Some 500)),
                      BnbGetSwapByCreator ''d1'' 3 0 (Inr (Some ?abc)),
                      BnbGetSwapByCreator ''d1'' 3 3 (Inr (Some [])),
                      BnbNodeInfo (Inr (Some 500)),
                      BnbGetSwapByRecipient ''d1'' 3 0 (Inr (Some [])),
                      Console (BnbCount 3)] @ rejectingBnbRounds 5000"
  have n: "\<And>es. newEvents ?s (?s\<lparr>trace := es\<rparr>) = es" "\<And>es. newEvents ?sm (?sm\<lparr>trace := es\<rparr>) = es"
    "bnbChainAddress (self ?s) = ''bnb1bot''"
    by (simp_all add: newEvents_def startState_def)
  note k1 = one_attempt_per_swap[where fuel = 2 and c = rejectingClients and s = ?s
      and ids = ?ids and ?s1.0 = "?s\<lparr>trace := ?q1\<rparr>" and r = "Inr ()" and s' = "?s\<lparr>trace := ?e1\<rparr>"
      and t = ?s and inc = "[''a'', ''b'', ''c'']" and ?t1.0 = "?s\<lparr>trace := ?b1\<rparr>"
      and out = "[]" and ?t2.0 = "?s\<lparr>trace := ?b2\<rparr>" and ?r3.0 = "Inr ()" and t' = "?s\<lparr>trace := ?b3\<rparr>"]
  note k2 = one_attempt_per_swap[where fuel = 2 and c = rejectingClients_v2 and s = ?s
      and ?ids2.0 = ?ids and ?s2.0 = "?s\<lparr>trace := ?q2\<rparr>" and ?r2.0 = "Inr ()" and s2' = "?s\<lparr>trace := ?e2\<rparr>"
      and t = ?s and ?inc2.0 = "[''a'', ''b'', ''c'']" and ?u1.0 = "?s\<lparr>trace := ?c1\<rparr>"
      and ?out2.0 = "[]" and ?u2.0 = "?s\<lparr>trace := ?c2\<rparr>" and ?r4.0 = "Inr ()" and u' = "?s\<lparr>trace := ?c3\<rparr>"]
  note k3 = one_attempt_per_swap[where fuel = 2 and c = noMetaDataClients and s = ?sm
      and ids = ?ids and ?s1.0 = "?sm\<lparr>trace := ?n1\<rparr>" and r = "Inr ()" and s' = "?sm\<lparr>trace := ?f1\<rparr>"]
  note k4 = one_attempt_per_swap[where fuel = 2 and c = noMetaDataClients_v2 and s = ?sm
      and ?ids2.0 = ?ids and ?s2.0 = "?sm\<lparr>trace := ?n2\<rparr>" and ?r2.0 = "Inr ()" and s2' = "?sm\<lparr>trace := ?f2\<rparr>"]
  have a: "\<exists>qs rs. length qs = length ?ids \<and> length rs = length ?ids \<and>
        rejectingKavaRounds 7000
          = concat (map (\<lambda>(x, q, a). kavaRound 7000 x q a) (zip ?ids (zip qs rs))) \<and>
        kavaSubmissions (rejectingKavaRounds 7000) = zip ?ids qs"
  proof -
    from k1 refundKavaSwaps_rejecting obtain r0 post where
      p: "newEvents ?s (?s\<lparr>trace := ?e1\<rparr>)
            = newEvents ?s (?s\<lparr>trace := ?q1\<rparr>) @ Console (KavaCount (length ?ids)) # KavaLoadMetaData r0 # post"
         "\<forall>base. r0 = Inr base \<longrightarrow>
            (\<exists>qs rs. length qs = length ?ids \<and> length rs = length ?ids \<and>
               post = concat (map (\<lambda>(x, q, a). kavaRound 7000 x q a) (zip ?ids (zip qs rs))) \<and>
               kavaSubmissions post = zip ?ids qs)"
      by blast
    from p(1) have "r0 = Inr 40" "post = rejectingKavaRounds 7000" unfolding n by simp_all
    with p(2) show ?thesis by blast
  qed
  have b: "\<exists>qs rs. length qs = length ?ids \<and> length rs = length ?ids \<and>
        rejectingKavaRounds 25000
          = concat (map (\<lambda>(x, q, a). kavaRound 25000 x q a) (zip ?ids (zip qs rs))) \<and>
        kavaSubmissions (rejectingKavaRounds 25000) = zip ?ids qs"
  proof -
    from k2 refundKavaSwaps_v2_rejecting obtain r0 post where
      p: "newEvents ?s (?s\<lparr>trace := ?e2\<rparr>)
            = newEvents ?s (?s\<lparr>trace := ?q2\<rparr>) @ Console (KavaCount (length ?ids)) # KavaLoadMetaData r0 # post"
         "\<forall>base. r0 = Inr base \<longrightarrow>
            (\<exists>qs rs. length qs = length ?ids \<and> length rs = length ?ids \<and>
               post = concat (map (\<lambda>(x, q, a). kavaRound 25000 x q a) (zip ?ids (zip qs rs))) \<and>
               kavaSubmissions post = zip ?ids qs)"
      by blast
    from p(1) have "r0 = Inr 40" "post = rejectingKavaRounds 25000" unfolding n by simp_all
    with p(2) show ?thesis by blast
  qed
  have c: "\<exists>rs. length rs = length ([''a'', ''b'', ''c''] @ []) \<and>
        rejectingBnbRounds 3000
          = concat (map (\<lambda>(x, a). bnbRound 3000 ''bnb1bot'' (Some x) a) (zip ([''a'', ''b'', ''c''] @ []) rs))"
    "bnbSubmissions ?b3 = map Some ([''a'', ''b'', ''c''] @ [])"
  proof -
    from k1 refundBinanceChainSwaps_rejecting obtain rs where
      p: "length rs = length ([''a'', ''b'', ''c''] @ [])"
         "newEvents ?s (?s\<lparr>trace := ?b3\<rparr>) = newEvents ?s (?s\<lparr>trace := ?b2\<rparr>)
            @ Console (BnbCount (length ([''a'', ''b'', ''c''] @ [])))
            # concat (map (\<lambda>(x, a). bnbRound 3000 (bnbChainAddress (self ?s)) (Some x) a)
                          (zip ([''a'', ''b'', ''c''] @ []) rs))"
      and q: "bnbSubmissions (newEvents ?s (?s\<lparr>trace := ?b3\<rparr>)) = map Some ([''a'', ''b'', ''c''] @ [])"
      by blast
    from p(2) have "rejectingBnbRounds 3000
          = concat (map (\<lambda>(x, a). bnbRound 3000 ''bnb1bot'' (Some x) a) (zip ([''a'', ''b'', ''c''] @ []) rs))"
      unfolding n by simp
    with p(1) show "\<exists>rs. length rs = length ([''a'', ''b'', ''c''] @ []) \<and>
        rejectingBnbRounds 3000
          = concat (map (\<lambda>(x, a). bnbRound 3000 ''bnb1bot'' (Some x) a) (zip ([''a'', ''b'', ''c''] @ []) rs))"
      by blast
    from q show "bnbSubmissions ?b3 = map Some ([''a'', ''b'', ''c''] @ [])" unfolding n .
  qed
  have d: "\<exists>rs. length rs = length ([''a'', ''b'', ''c''] @ []) \<and>
        rejectingBnbRounds 5000
          = concat (map (\<lambda>(x, a). bnbRound 5000 ''bnb1bot'' (Some x) a) (zip ([''a'', ''b'', ''c''] @ []) rs))"
    "bnbSubmissions ?c3 = map Some ([''a'', ''b'', ''c''] @ [])"
  proof -
    from k2 refundBinanceChainSwaps_v2_rejecting obtain rs where
      p: "length rs = length ([''a'', ''b'', ''c''] @ [])"
         "newEvents ?s (?s\<lparr>trace := ?c3\<rparr>) = newEvents ?s (?s\<lparr>trace := ?c2\<rparr>)
            @ Console (BnbCount (length ([''a'', ''b'', ''c''] @ [])))
            # concat (map (\<lambda>(x, a). bnbRound 5000 (bnbChainAddress (self ?s)) (Some x) a)
                          (zip ([''a'', ''b'', ''c''] @ []) rs))"
      and q: "bnbSubmissions (newEvents ?s (?s\<lparr>trace := ?c3\<rparr>)) = map Some ([''a'', ''b'', ''c''] @ [])"
      by blast
    from p(2) have "rejectingBnbRounds 5000
          = concat (map (\<lambda>(x, a). bnbRound 5000 ''bnb1bot'' (Some x) a) (zip ([''a'', ''b'', ''c''] @ []) rs))"
      unfolding n by simp
    with p(1) show "\<exists>rs. length rs = length ([''a'', ''b'', ''c''] @ []) \<and>
        rejectingBnbRounds 5000
          = concat (map (\<lambda>(x, a). bnbRound 5000 ''bnb1bot'' (Some x) a) (zip ([''a'', ''b'', ''c''] @ []) rs))"
      by blast
    from q show "bnbSubmissions ?c3 = map Some ([''a'', ''b'', ''c''] @ [])" unfolding n .
  qed
  have e: "\<exists>post. ?f1 = ?n1 @ Console (KavaCount 2) # KavaLoadMetaData (Inl (Error ''timeout'')) # post
      \<and> post = [Console (Exn (Error ''timeout''))]"
  proof -
    from k3[THEN conjunct1] refundKavaSwaps_noMetaData(1,2) obtain r0 post where
      p: "newEvents ?sm (?sm\<lparr>trace := ?f1\<rparr>)
            = newEvents ?sm (?sm\<lparr>trace := ?n1\<rparr>) @ Console (KavaCount (length ?ids)) # KavaLoadMetaData r0 # post"
         "\<forall>e. r0 = Inl e \<longrightarrow> post = [Console (Exn e)]"
      by blast
    from p(1) have "r0 = Inl (Error ''timeout'')" unfolding n by simp
    with p show ?thesis unfolding n by simp
  qed
  have f: "\<exists>post. ?f2 = ?n2 @ Console (KavaCount 2) # KavaLoadMetaData (Inl (Error ''timeout'')) # post
      \<and> post = [Console (Exn (Error ''timeout''))]"
  proof -
    from k4[THEN conjunct2, THEN conjunct1] refundKavaSwaps_noMetaData(3,4) obtain r0 post where
      p: "newEvents ?sm (?sm\<lparr>trace := ?f2\<rparr>)
            = newEvents ?sm (?sm\<lparr>trace := ?n2\<rparr>) @ Console (KavaCount (length ?ids)) # KavaLoadMetaData r0 # post"
         "\<forall>e. r0 = Inl e \<longrightarrow> post = [Console (Exn e)]"
      by blast
    from p(1) have "r0 = Inl (Error ''timeout'')" unfolding n by simp
    with p show ?thesis unfolding n by simp
  qed
  from a b c d e f refundKavaSwaps_rejecting(2) refundKavaSwaps_v2_rejecting(2)
    refundKavaSwaps_noMetaData(2,4)
    refundBinanceChainSwaps_rejecting(3) refundBinanceChainSwaps_v2_rejecting(3)
  show ?thesis by blast
qed

text \<open>
  C6 as stated fails twice. The scan of Kava finds two swaps, \<open>loadMetaData\<close>
  throws, and \<open>refundKavaSwaps\<close> returns without a single call of \<open>refundSwap\<close>. And
  on Binance Chain the refund of \<open>b\<close>, which is answered with status 500, leaves no
  line on the console: only the refund of \<open>a\<close>, which threw, is followed by its
  error.
\<close>

theorem failed_load_and_rejected_refund:
  "getRefundableKavaSwaps 2 noMetaDataClients (startState [''d1''] 2)
     = Some (Inr (Some [''hkb'', ''gkb'']),
         (startState [''d1''] 2)
           \<lparr>trace := [KavaGetSwaps 1 2 (Inr (Some [kavaSwapA, kavaSwapB])),
                      KavaGetSwaps 2 2 (Inr (Some []))]\<rparr>)
 \<and> refundKavaSwaps 2 noMetaDataClients (startState [''d1''] 2)
     = Some (Inr (),
         (startState [''d1''] 2)
           \<lparr>trace := [KavaGetSwaps 1 2 (Inr (Some [kavaSwapA, kavaSwapB])),
                      KavaGetSwaps 2 2 (Inr (Some [])),
                      Console (KavaCount 2),
                      KavaLoadMetaData (Inl (Error ''timeout'')),
                      Console (Exn (Error ''timeout''))]\<rparr>)
 \<and> refundBinanceChainSwaps 2 rejectingClients (startState [''d1''] 3)
     = Some (Inr (),
         (startState [''d1''] 3)
           \<lparr>trace := [BnbGetSwapByCreator ''d1'' 3 0
                        (Inr (Some [openSwap ''a'' 10, openSwap ''b'' 20, openSwap ''c'' 30])),
                      BnbGetSwapByCreator ''d1'' 3 3 (Inr (Some [])),
                      BnbGetSwapByRecipient ''d1'' 3 0 (Inr (Some [])),
                      Console (BnbCount 3),
                      Console (Refunding (Some ''a'')),
                      BnbRefundHTLT ''bnb1bot'' (Some ''a'') (Inl (Error ''rejected'')),
                      Console (Exn (Error ''rejected'')),
                      Sleep 3000,
                      Console (Refunding (Some ''b'')),
                      BnbRefundHTLT ''bnb1bot'' (Some ''b'')
                        (Inr (Some \<lparr>res_status = 500, res_result = []\<rparr>)),
                      Sleep 3000,
                      Console (Refunding (Some ''c'')),
                      BnbRefundHTLT ''bnb1bot'' (Some ''c'')
                        (Inr (Some \<lparr>res_status = 200, res_result = [''hash'']\<rparr>)),
                      Console (TxHash ''hash''),
                      Sleep 3000]\<rparr>)"
  by (simp add: eval_defs rejecting_defs)

text \<open>
  C7, as the code has it. The two offsets of the object are set by the constructor,
  to 0 by default (\<open>bnbChainAddress\<close> is set later, by \<open>initBnbChainClient\<close>). A cycle, in either
  revision, leaves the object as it was: the scans advance local copies only. So
  \<open>printOffsets\<close> after any cycle writes the values given to the constructor.
\<close>

theorem stored_offsets_never_change:
  "(RefundBot_default deputies0 = Inr b0 \<longrightarrow> offsetIncoming b0 = 0 \<and> offsetOutgoing b0 = 0)
 \<and> (RefundBot_new deputies lim offIn offOut = Inr b \<and> self s = b\<lparr>bnbChainAddress := addr\<rparr> \<longrightarrow>
     offsetIncoming (self s) = offIn \<and> offsetOutgoing (self s) = offOut
   \<and> (refundSwaps fuel c s = Some (r, s') \<longrightarrow>
        self s' = self s \<and> newEvents s' (printOffsets s') = [Console (Offsets offIn offOut)])
   \<and> (refundSwaps_v2 fuel c s = Some (r2, s2') \<longrightarrow>
        self s2' = self s \<and> newEvents s2' (printOffsets s2') = [Console (Offsets offIn offOut)]))"
proof (rule conjI; intro impI; (elim conjE)?)
  assume "RefundBot_default deputies0 = Inr b0"
  then show "offsetIncoming b0 = 0 \<and> offsetOutgoing b0 = 0"
    by (auto simp: RefundBot_default_def RefundBot_new_def split: if_splits)
next
  assume n: "RefundBot_new deputies lim offIn offOut = Inr b" and s: "self s = b\<lparr>bnbChainAddress := addr\<rparr>"
  from n s have o: "offsetIncoming (self s) = offIn" "offsetOutgoing (self s) = offOut"
    by (auto simp: RefundBot_new_def split: if_splits)
  have p: "\<And>t. self t = self s \<Longrightarrow> newEvents t (printOffsets t) = [Console (Offsets offIn offOut)]"
    using o by (simp add: printOffsets_def console_def newEvents_def)
  show "offsetIncoming (self s) = offIn \<and> offsetOutgoing (self s) = offOut
   \<and> (refundSwaps fuel c s = Some (r, s') \<longrightarrow>
        self s' = self s \<and> newEvents s' (printOffsets s') = [Console (Offsets offIn offOut)])
   \<and> (refundSwaps_v2 fuel c s = Some (r2, s2') \<longrightarrow>
        self s2' = self s \<and> newEvents s2' (printOffsets s2') = [Console (Offsets offIn offOut)])"
    using o p refundSwaps_self[of fuel c s r s'] refundSwaps_v2_self[of fuel c s r2 s2'] by auto
qed

theorem stored_offsets_never_change_witness:
  "RefundBot_default [''d1'']
     = Inr \<lparr>deputyAddresses = [''d1''], limit = 100, offsetIncoming = 0, offsetOutgoing = 0,
            bnbChainAddress = ''''\<rparr>
 \<and> offsetIncoming \<lparr>deputyAddresses = [''d1''], limit = 100, offsetIncoming = 0, offsetOutgoing = 0,
            bnbChainAddress = ''''\<rparr> = 0
 \<and> RefundBot_new [''d1''] 1 0 0
     = Inr \<lparr>deputyAddresses = [''d1''], limit = 1, offsetIncoming = 0, offsetOutgoing = 0,
            bnbChainAddress = ''''\<rparr>
 \<and> refundSwaps 2 oneEachClients (startState [''d1''] 1)
     = Some (Inr (), (startState [''d1''] 1)\<lparr>trace := oneEachTrace\<rparr>)
 \<and> refundSwaps_v2 2 oneEachClients_v2 (startState [''d1''] 1)
     = Some (Inr (), (startState [''d1''] 1)\<lparr>trace := oneEachTrace_v2\<rparr>)
 \<and> self ((startState [''d1''] 1)\<lparr>trace := oneEachTrace\<rparr>) = self (startState [''d1''] 1)
 \<and> newEvents ((startState [''d1''] 1)\<lparr>trace := oneEachTrace\<rparr>)
      (printOffsets ((startState [''d1''] 1)\<lparr>trace := oneEachTrace\<rparr>)) = [Console (Offsets 0 0)]
 \<and> self ((startState [''d1''] 1)\<lparr>trace := oneEachTrace_v2\<rparr>) = self (startState [''d1''] 1)
 \<and> newEvents ((startState [''d1''] 1)\<lparr>trace := oneEachTrace_v2\<rparr>)
      (printOffsets ((startState [''d1''] 1)\<lparr>trace := oneEachTrace_v2\<rparr>)) = [Console (Offsets 0 0)]"
proof -
  let ?s = "startState [''d1''] 1"
  let ?b = "\<lparr>deputyAddresses = [''d1''], limit = 1, offsetIncoming = 0, offsetOutgoing = 0,
            bnbChainAddress = ''''\<rparr>"
  let ?dflt = "\<lparr>deputyAddresses = [''d1''], limit = 100, offsetIncoming = 0, offsetOutgoing = 0,
            bnbChainAddress = ''''\<rparr>"
  have n0: "RefundBot_default [''d1''] = Inr ?dflt" by (simp add: RefundBot_default_def RefundBot_new_def)
  have o0: "offsetIncoming ?dflt = 0"
    using stored_offsets_never_change[THEN conjunct1, rule_format, OF n0] by simp
  have n: "RefundBot_new [''d1''] 1 0 0 = Inr ?b" by (simp add: RefundBot_new_def)
  have s: "self ?s = ?b\<lparr>bnbChainAddress := ''bnb1bot''\<rparr>" by (simp add: startState_def)
  from stored_offsets_never_change[where deputies = "[''d1'']" and lim = 1 and offIn = 0 and offOut = 0
      and b = ?b and s = ?s and addr = "''bnb1bot''" and fuel = 2 and c = oneEachClients and r = "Inr ()"
      and s' = "?s\<lparr>trace := oneEachTrace\<rparr>"]
    n s refundSwaps_oneEach
  have a: "self (?s\<lparr>trace := oneEachTrace\<rparr>) = self ?s
     \<and> newEvents (?s\<lparr>trace := oneEachTrace\<rparr>) (printOffsets (?s\<lparr>trace := oneEachTrace\<rparr>)) = [Console (Offsets 0 0)]"
    by blast
  from stored_offsets_never_change[where deputies = "[''d1'']" and lim = 1 and offIn = 0 and offOut = 0
      and b = ?b and s = ?s and addr = "''bnb1bot''" and fuel = 2 and c = oneEachClients_v2 and ?r2.0 = "Inr ()"
      and s2' = "?s\<lparr>trace := oneEachTrace_v2\<rparr>"]
    n s refundSwaps_v2_oneEach
  have b: "self (?s\<lparr>trace := oneEachTrace_v2\<rparr>) = self ?s
     \<and> newEvents (?s\<lparr>trace := oneEachTrace_v2\<rparr>) (printOffsets (?s\<lparr>trace := oneEachTrace_v2\<rparr>)) = [Console (Offsets 0 0)]"
    by blast
  from n0 o0 n refundSwaps_oneEach refundSwaps_v2_oneEach a b show ?thesis by blast
qed

text \<open>
  C7 as stated fails: in this cycle of refund.js the scan of incoming swaps reaches
  offset 1, and \<open>printOffsets\<close> afterwards still writes 0 and 0.
\<close>

theorem stored_offsets_stay_example:
  "refundSwaps 2 oneEachClients (startState [''d1''] 1)
     = Some (Inr (), (startState [''d1''] 1)\<lparr>trace := oneEachTrace\<rparr>)
 \<and> bnbQueries oneEachTrace = [(''d1'', 0), (''d1'', 1), (''d1'', 0)]
 \<and> printOffsets ((startState [''d1''] 1)\<lparr>trace := oneEachTrace\<rparr>)
     = (startState [''d1''] 1)\<lparr>trace := oneEachTrace @ [Console (Offsets 0 0)]\<rparr>"
  by (simp add: run_defs scan_defs refund_defs example_defs more_defs oneEachTrace_def eval_nat_numeral
       printOffsets_def)

text \<open>
  C8, as the code has it. Every refund submission is followed by one sleep before
  the next submission, whether the submission succeeded or threw: 7000 ms on Kava
  and 3000 ms on Binance Chain in refund.js, 25000 ms and 5000 ms in the later
  revision. Nothing else sleeps.
\<close>

theorem pacing_after_each_submission:
  "(refundKavaSwaps fuel c s = Some (r, s') \<longrightarrow>
      pacing (newEvents s s')
        = concat (replicate (length (kavaSubmissions (newEvents s s'))) [None, Some 7000]))
 \<and> (refundBinanceChainSwaps fuel c s = Some (r, s') \<longrightarrow>
      pacing (newEvents s s')
        = concat (replicate (length (bnbSubmissions (newEvents s s'))) [None, Some 3000]))
 \<and> (refundKavaSwaps_v2 fuel c s = Some (r, s') \<longrightarrow>
      pacing (newEvents s s')
        = concat (replicate (length (kavaSubmissions (newEvents s s'))) [None, Some 25000]))
 \<and> (refundBinanceChainSwaps_v2 fuel c s = Some (r, s') \<longrightarrow>
      pacing (newEvents s s')
        = concat (replicate (length (bnbSubmissions (newEvents s s'))) [None, Some 5000]))"
  using extends_newEventsD[OF refundKavaSwaps_effect, of fuel c s r s']
    extends_newEventsD[OF refundBinanceChainSwaps_effect, of fuel c s r s']
    extends_newEventsD[OF refundKavaSwaps_v2_effect, of fuel c s r s']
    extends_newEventsD[OF refundBinanceChainSwaps_v2_effect, of fuel c s r s']
  by blast

theorem pacing_after_each_submission_witness:
  "refundKavaSwaps 2 oneEachClients (startState [''d1''] 1)
     = Some (Inr (), (startState [''d1''] 1)\<lparr>trace := take 8 oneEachTrace\<rparr>)
 \<and> pacing (newEvents (startState [''d1''] 1) ((startState [''d1''] 1)\<lparr>trace := take 8 oneEachTrace\<rparr>))
     = concat (replicate 1 [None, Some 7000])
 \<and> refundBinanceChainSwaps 2 oneEachClients (startState [''d1''] 1)
     = Some (Inr (), (startState [''d1''] 1)\<lparr>trace := drop 8 oneEachTrace\<rparr>)
 \<and> pacing (newEvents (startState [''d1''] 1) ((startState [''d1''] 1)\<lparr>trace := drop 8 oneEachTrace\<rparr>))
     = concat (replicate 1 [None, Some 3000])
 \<and> refundKavaSwaps_v2 2 oneEachClients_v2 (startState [''d1''] 1)
     = Some (Inr (), (startState [''d1''] 1)\<lparr>trace := take 8 oneEachTrace_v2\<rparr>)
 \<and> pacing (newEvents (startState [''d1''] 1) ((startState [''d1''] 1)\<lparr>trace := take 8 oneEachTrace_v2\<rparr>))
     = concat (replicate 1 [None, Some 25000])
 \<and> refundBinanceChainSwaps_v2 2 oneEachClients_v2 (startState [''d1''] 1)
     = Some (Inr (), (startState [''d1''] 1)\<lparr>trace := drop 8 oneEachTrace_v2\<rparr>)
 \<and> pacing (newEvents (startState [''d1''] 1) ((startState [''d1''] 1)\<lparr>trace := drop 8 oneEachTrace_v2\<rparr>))
     = concat (replicate 1 [None, Some 5000])"
proof -
  let ?s = "startState [''d1''] 1"
  have k: "length (kavaSubmissions (newEvents ?s (?s\<lparr>trace := take 8 oneEachTrace\<rparr>))) = 1"
    "length (bnbSubmissions (newEvents ?s (?s\<lparr>trace := drop 8 oneEachTrace\<rparr>))) = 1"
    "length (kavaSubmissions (newEvents ?s (?s\<lparr>trace := take 8 oneEachTrace_v2\<rparr>))) = 1"
    "length (bnbSubmissions (newEvents ?s (?s\<lparr>trace := drop 8 oneEachTrace_v2\<rparr>))) = 1"
    by (simp_all add: newEvents_def startState_def oneEachTrace_def oneEachTrace_v2_def)
  from pacing_after_each_submission[of 2 oneEachClients ?s "Inr ()" "?s\<lparr>trace := take 8 oneEachTrace\<rparr>"]
    refundKavaSwaps_oneEach(1) k(1)
  have a: "pacing (newEvents ?s (?s\<lparr>trace := take 8 oneEachTrace\<rparr>)) = concat (replicate 1 [None, Some 7000])"
    by (simp del: replicate.simps)
  from pacing_after_each_submission[of 2 oneEachClients ?s "Inr ()" "?s\<lparr>trace := drop 8 oneEachTrace\<rparr>"]
    refundBinanceChainSwaps_oneEach(1) k(2)
  have b: "pacing (newEvents ?s (?s\<lparr>trace := drop 8 oneEachTrace\<rparr>)) = concat (replicate 1 [None, Some 3000])"
    by (simp del: replicate.simps)
  from pacing_after_each_submission[of 2 oneEachClients_v2 ?s "Inr ()" "?s\<lparr>trace := take 8 oneEachTrace_v2\<rparr>"]
    refundKavaSwaps_v2_oneEach(1) k(3)
  have c: "pacing (newEvents ?s (?s\<lparr>trace := take 8 oneEachTrace_v2\<rparr>)) = concat (replicate 1 [None, Some 25000])"
    by (simp del: replicate.simps)
  from pacing_after_each_submission[of 2 oneEachClients_v2 ?s "Inr ()" "?s\<lparr>trace := drop 8 oneEachTrace_v2\<rparr>"]
    refundBinanceChainSwaps_v2_oneEach(1) k(4)
  have d: "pacing (newEvents ?s (?s\<lparr>trace := drop 8 oneEachTrace_v2\<rparr>)) = concat (replicate 1 [None, Some 5000])"
    by (simp del: replicate.simps)
  from a b c d refundKavaSwaps_oneEach(1) refundBinanceChainSwaps_oneEach(1)
    refundKavaSwaps_v2_oneEach(1) refundBinanceChainSwaps_v2_oneEach(1)
  show ?thesis by blast
qed

text \<open>
  C8 as stated fails on refund.js: the sleep after the Kava submission is 7000 ms
  and the sleep after the Binance Chain submission is 3000 ms.
\<close>

theorem pacing_of_refund_js_example:
  "refundSwaps 2 oneEachClients (startState [''d1''] 1)
     = Some (Inr (), (startState [''d1''] 1)\<lparr>trace := oneEachTrace\<rparr>)
 \<and> pacing oneEachTrace = [None, Some 7000, None, Some 3000]"
  by (simp add: run_defs scan_defs refund_defs example_defs more_defs oneEachTrace_def eval_nat_numeral)

text \<open>
  C9, as the code has it. In a scan of one direction over several deputies the local
  offset is one variable for all of them. In refund.js it is never set back: when
  the loop for one deputy has ended on an empty page, the first query for the next
  deputy is sent with the offset that loop has left in the variable; after nothing
  but full pages that is the offset the loop started with plus \<open>limit\<close> for each of
  them (where these sums are exact, up to \<open>maxSafe\<close>). In the later revision the
  empty page sets the offset back, so the first query for the next deputy is sent
  with the offset stored in the object; only when the loop for the earlier deputy
  was ended by a failed query is the first query for the next deputy sent with the
  offset that loop has left.
\<close>

theorem offset_shared_across_deputies:
  "(whileLoop fuel (bnbScanBody c incoming d1) L s = Some (Break L1, s1) \<and>
    bnbScanDeputies fuel c incoming (d1 # d2 # ds) L s = Some (r, s2) \<longrightarrow>
      (\<exists>qs. bnbQueries (newEvents s1 s2) = (d2, offsetOf incoming L1) # qs) \<and>
      (\<exists>ps. bnbAnswers (newEvents s s1) = map (\<lambda>p. Inr (Some p)) ps @ [Inr (Some [])] \<and>
         ((\<forall>p\<in>set ps. int (length p) = limit (self s)) \<and>
          \<bar>offsetOf incoming L\<bar> + int (length ps) * \<bar>limit (self s)\<bar> \<le> maxSafe \<longrightarrow>
            offsetOf incoming L1 = offsetOf incoming L + int (length ps) * limit (self s))))
 \<and> (whileLoop fuel (bnbScanBody_v2 c incoming h d1) L s = Some (Break M1, t1) \<and>
    asyncForEach (d1 # d2 # ds) (bnbScanDeputy_v2 fuel c incoming h) L s = Some (r', t2) \<longrightarrow>
      (\<exists>qs. bnbQueries (newEvents t1 t2)
          = (d2, if incoming then offsetIncoming (self s) else offsetOutgoing (self s)) # qs))
 \<and> (whileLoop fuel (bnbScanBody_v2 c incoming h d1) L s = Some (Return N1, u1) \<and>
    asyncForEach (d1 # d2 # ds) (bnbScanDeputy_v2 fuel c incoming h) L s = Some (r'', u2) \<longrightarrow>
      (\<exists>qs. bnbQueries (newEvents u1 u2) = (d2, offsetOf incoming N1) # qs) \<and>
      (\<exists>ps e. bnbAnswers (newEvents s u1) = map (\<lambda>p. Inr (Some p)) ps @ [Inl e] \<and>
         ((\<forall>p\<in>set ps. int (length p) = limit (self s)) \<and>
          \<bar>offsetOf incoming L\<bar> + int (length ps) * \<bar>limit (self s)\<bar> \<le> maxSafe \<longrightarrow>
            offsetOf incoming N1 = offsetOf incoming L + int (length ps) * limit (self s))))"
proof (intro conjI impI; elim conjE)
  assume w: "whileLoop fuel (bnbScanBody c incoming d1) L s = Some (Break L1, s1)"
    and d: "bnbScanDeputies fuel c incoming (d1 # d2 # ds) L s = Some (r, s2)"
  from w d have "bnbScanDeputies fuel c incoming (d2 # ds) L1 s1 = Some (r, s2)" by simp
  from bnbScanDeputies_first[OF this]
  show "\<exists>qs. bnbQueries (newEvents s1 s2) = (d2, offsetOf incoming L1) # qs" .
  from bnbLoop_pages[OF w] obtain ps a es where
    p0: "trace s1 = trace s @ es" "bnbAnswers es = map (\<lambda>p. Inr (Some p)) ps @ [a]"
      "case Break L1 :: (bnb_locals, string list option) ctl of
               Break L' \<Rightarrow> a = Inr (Some []) | Return x \<Rightarrow> x = None \<and> (\<exists>e. a = Inl e)
               | Throw e \<Rightarrow> a = Inr None | Continue L' \<Rightarrow> False"
      "(\<forall>p\<in>set ps. int (length p) = limit (self s)) \<and>
             \<bar>offsetOf incoming L\<bar> + int (length ps) * \<bar>limit (self s)\<bar> \<le> maxSafe \<longrightarrow>
               bnbQueries es = map (\<lambda>k. (d1, offsetOf incoming L + int k * limit (self s))) [0..<Suc (length ps)] \<and>
               (\<forall>L'. Break L1 = Break L' \<longrightarrow> offsetOf incoming L' = offsetOf incoming L + int (length ps) * limit (self s))"
    by blast
  from p0(3) have e: "a = Inr (Some [])" by simp
  note p = p0(1,2) e p0(4)
  have n: "newEvents s s1 = es" using p(1) by (rule newEvents_append)
  from p(2-4) show "\<exists>ps. bnbAnswers (newEvents s s1) = map (\<lambda>p. Inr (Some p)) ps @ [Inr (Some [])] \<and>
         ((\<forall>p\<in>set ps. int (length p) = limit (self s)) \<and>
          \<bar>offsetOf incoming L\<bar> + int (length ps) * \<bar>limit (self s)\<bar> \<le> maxSafe \<longrightarrow>
            offsetOf incoming L1 = offsetOf incoming L + int (length ps) * limit (self s))"
    unfolding n by (intro exI[of _ ps]) blast
next
  assume w: "whileLoop fuel (bnbScanBody_v2 c incoming h d1) L s = Some (Break M1, t1)"
    and d: "asyncForEach (d1 # d2 # ds) (bnbScanDeputy_v2 fuel c incoming h) L s = Some (r', t2)"
  from bnbLoop_v2_offsets[OF w]
  have o: "offsetOf incoming M1 = (if incoming then offsetIncoming (self s) else offsetOutgoing (self s))"
    by (auto simp: offsetOf_def)
  from w d have "asyncForEach (d2 # ds) (bnbScanDeputy_v2 fuel c incoming h) M1 t1 = Some (r', t2)"
    by (simp add: bnbScanDeputy_v2_def)
  from bnbForEach_v2_first[OF this] o
  show "\<exists>qs. bnbQueries (newEvents t1 t2)
          = (d2, if incoming then offsetIncoming (self s) else offsetOutgoing (self s)) # qs"
    by simp
next
  assume w: "whileLoop fuel (bnbScanBody_v2 c incoming h d1) L s = Some (Return N1, u1)"
    and d: "asyncForEach (d1 # d2 # ds) (bnbScanDeputy_v2 fuel c incoming h) L s = Some (r'', u2)"
  from w d have "asyncForEach (d2 # ds) (bnbScanDeputy_v2 fuel c incoming h) N1 u1 = Some (r'', u2)"
    by (simp add: bnbScanDeputy_v2_def)
  from bnbForEach_v2_first[OF this]
  show "\<exists>qs. bnbQueries (newEvents u1 u2) = (d2, offsetOf incoming N1) # qs" .
  from bnbLoop_v2_pages[OF w] obtain ps a es where
    p0: "trace u1 = trace s @ es" "bnbAnswers es = map (\<lambda>p. Inr (Some p)) ps @ [a]"
      "case Return N1 :: (bnb_locals, bnb_locals) ctl of
               Break L' \<Rightarrow> (a = Inr (Some []) \<or> a = Inr None) \<and>
                           loc_offsetIncoming L' = offsetIncoming (self s) \<and>
                           loc_offsetOutgoing L' = offsetOutgoing (self s)
             | Return L' \<Rightarrow> (\<exists>e. a = Inl e)
             | _ \<Rightarrow> False"
      "(\<forall>p\<in>set ps. int (length p) = limit (self s)) \<and>
             \<bar>offsetOf incoming L\<bar> + int (length ps) * \<bar>limit (self s)\<bar> \<le> maxSafe \<longrightarrow>
               bnbQueries es = map (\<lambda>k. (d1, offsetOf incoming L + int k * limit (self s))) [0..<Suc (length ps)] \<and>
               (\<forall>L'. Return N1 = Return L' \<longrightarrow> offsetOf incoming L' = offsetOf incoming L + int (length ps) * limit (self s))"
    by blast
  from p0(3) obtain e where e: "a = Inl e" by auto
  note p = p0(1,2) e p0(4)
  have n: "newEvents s u1 = es" using p(1) by (rule newEvents_append)
  from p(2-4) show "\<exists>ps e. bnbAnswers (newEvents s u1) = map (\<lambda>p. Inr (Some p)) ps @ [Inl e] \<and>
         ((\<forall>p\<in>set ps. int (length p) = limit (self s)) \<and>
          \<bar>offsetOf incoming L\<bar> + int (length ps) * \<bar>limit (self s)\<bar> \<le> maxSafe \<longrightarrow>
            offsetOf incoming N1 = offsetOf incoming L + int (length ps) * limit (self s))"
    unfolding n by (intro exI[of _ ps] exI[of _ e]) blast
qed

theorem offset_shared_across_deputies_witness:
  "(\<exists>qs. bnbQueries (newEvents
       ((startState [''d1'', ''d2''] 2)
          \<lparr>trace := [BnbGetSwapByCreator ''d1'' 2 0 (Inr (Some [openSwap ''a'' 10, openSwap ''b'' 20])),
                     BnbGetSwapByCreator ''d1'' 2 2 (Inr (Some []))]\<rparr>)
       ((startState [''d1'', ''d2''] 2)
          \<lparr>trace := [BnbGetSwapByCreator ''d1'' 2 0 (Inr (Some [openSwap ''a'' 10, openSwap ''b'' 20])),
                     BnbGetSwapByCreator ''d1'' 2 2 (Inr (Some [])),
                     BnbGetSwapByCreator ''d2'' 2 2 (Inr (Some []))]\<rparr>))
     = (''d2'', 2) # qs)
 \<and> offsetOf True \<lparr>openSwaps = [openSwap ''a'' 10, openSwap ''b'' 20],
                    loc_offsetIncoming = 2, loc_offsetOutgoing = 0\<rparr> = 0 + 1 * 2
 \<and> (\<exists>qs. bnbQueries (newEvents
       ((startState [''d1'', ''d2''] 2)
          \<lparr>trace := [BnbGetSwapByCreator ''d1'' 2 0 (Inr (Some [openSwap ''a'' 10, openSwap ''b'' 20])),
                     BnbGetSwapByCreator ''d1'' 2 2 (Inr (Some []))]\<rparr>)
       ((startState [''d1'', ''d2''] 2)
          \<lparr>trace := [BnbGetSwapByCreator ''d1'' 2 0 (Inr (Some [openSwap ''a'' 10, openSwap ''b'' 20])),
                     BnbGetSwapByCreator ''d1'' 2 2 (Inr (Some [])),
                     BnbGetSwapByCreator ''d2'' 2 0 (Inr (Some [openSwap ''c'' 30])),
                     BnbGetSwapByCreator ''d2'' 2 2 (Inr (Some []))]\<rparr>))
     = (''d2'', 0) # qs)
 \<and> (\<exists>qs. bnbQueries (newEvents
       ((startState [''d1'', ''d2''] 2)
          \<lparr>trace := [BnbGetSwapByCreator ''d1'' 2 0 (Inr (Some [openSwap ''a'' 10, openSwap ''b'' 20])),
                     BnbGetSwapByCreator ''d1'' 2 2 (Inl (Error ''timeout'')),
                     Console (BnbQueryFailed True)]\<rparr>)
       ((startState [''d1'', ''d2''] 2)
          \<lparr>trace := [BnbGetSwapByCreator ''d1'' 2 0 (Inr (Some [openSwap ''a'' 10, openSwap ''b'' 20])),
                     BnbGetSwapByCreator ''d1'' 2 2 (Inl (Error ''timeout'')),
                     Console (BnbQueryFailed True),
                     BnbGetSwapByCreator ''d2'' 2 2 (Inr (Some []))]\<rparr>))
     = (''d2'', 2) # qs)"
proof -
  let ?s = "startState [''d1'', ''d2''] 2"
  let ?L = "\<lparr>openSwaps = [], loc_offsetIncoming = 0, loc_offsetOutgoing = 0\<rparr>"
  let ?ab = "[openSwap ''a'' 10, openSwap ''b'' 20]"
  let ?p0 = "BnbGetSwapByCreator ''d1'' 2 0 (Inr (Some ?ab))"
  let ?p2 = "BnbGetSwapByCreator ''d1'' 2 2 (Inr (Some []))"
  let ?e2 = "BnbGetSwapByCreator ''d1'' 2 2 (Inl (Error ''timeout''))"
  let ?s1 = "?s\<lparr>trace := [?p0, ?p2]\<rparr>"
  let ?s2 = "?s\<lparr>trace := [?p0, ?p2, BnbGetSwapByCreator ''d2'' 2 2 (Inr (Some []))]\<rparr>"
  let ?t2 = "?s\<lparr>trace := [?p0, ?p2, BnbGetSwapByCreator ''d2'' 2 0 (Inr (Some [openSwap ''c'' 30])),
                     BnbGetSwapByCreator ''d2'' 2 2 (Inr (Some []))]\<rparr>"
  let ?u1 = "?s\<lparr>trace := [?p0, ?e2, Console (BnbQueryFailed True)]\<rparr>"
  let ?u2 = "?s\<lparr>trace := [?p0, ?e2, Console (BnbQueryFailed True),
                     BnbGetSwapByCreator ''d2'' 2 2 (Inr (Some []))]\<rparr>"
  let ?L1 = "\<lparr>openSwaps = ?ab, loc_offsetIncoming = 2, loc_offsetOutgoing = 0\<rparr>"
  let ?M1 = "\<lparr>openSwaps = ?ab, loc_offsetIncoming = 0, loc_offsetOutgoing = 0\<rparr>"
  let ?M2 = "\<lparr>openSwaps = ?ab @ [openSwap ''c'' 30], loc_offsetIncoming = 0, loc_offsetOutgoing = 0\<rparr>"
  have w1: "whileLoop 2 (bnbScanBody twoDeputyClients True ''d1'') ?L ?s = Some (Break ?L1, ?s1)"
    by (simp add: eval_defs)
  have d1: "bnbScanDeputies 2 twoDeputyClients True [''d1'', ''d2''] ?L ?s = Some (Break ?L1, ?s2)"
    by (simp add: eval_defs)
  have w2: "whileLoop 2 (bnbScanBody_v2 twoDeputyClients True (Some 500) ''d1'') ?L ?s = Some (Break ?M1, ?s1)"
    by (simp add: eval_defs)
  have d2: "asyncForEach [''d1'', ''d2''] (bnbScanDeputy_v2 2 twoDeputyClients True (Some 500)) ?L ?s
      = Some (Inr ?M2, ?t2)"
    by (simp add: eval_defs)
  have w3: "whileLoop 2 (bnbScanBody_v2 flakyClients True (Some 500) ''d1'') ?L ?s = Some (Return ?L1, ?u1)"
    by (simp add: eval_defs flakyClients_def)
  have d3: "asyncForEach [''d1'', ''d2''] (bnbScanDeputy_v2 2 flakyClients True (Some 500)) ?L ?s
      = Some (Inr ?M1, ?u2)"
    by (simp add: eval_defs flakyClients_def)
  have v: "offsetOf True ?L = 0" "limit (self ?s) = 2" "offsetIncoming (self ?s) = 0"
    "offsetOf True ?L1 = 2"
    by (simp_all add: offsetOf_def startState_def)
  have ev: "bnbAnswers (newEvents ?s ?s1) = [Inr (Some ?ab), Inr (Some [])]"
    by (simp add: newEvents_def startState_def)
  have bd: "\<bar>0\<bar> + int (length [?ab]) * \<bar>2\<bar> \<le> maxSafe"
    by (simp add: maxSafe_value)
  note a = offset_shared_across_deputies[where fuel = 2 and c = twoDeputyClients and incoming = True
      and ?d1.0 = "''d1''" and ?d2.0 = "''d2''" and ds = "[]" and L = ?L and s = ?s
      and ?L1.0 = ?L1 and ?s1.0 = ?s1 and r = "Break ?L1" and ?s2.0 = ?s2
      and h = "Some 500" and ?M1.0 = ?M1 and ?t1.0 = ?s1 and r' = "Inr ?M2" and ?t2.0 = ?t2]
  note b = offset_shared_across_deputies[where fuel = 2 and c = flakyClients and incoming = True
      and ?d1.0 = "''d1''" and ?d2.0 = "''d2''" and ds = "[]" and L = ?L and s = ?s
      and h = "Some 500" and ?N1.0 = ?L1 and ?u1.0 = ?u1 and r'' = "Inr ?M1" and ?u2.0 = ?u2]
  from a w1 d1 v have x: "\<exists>qs. bnbQueries (newEvents ?s1 ?s2) = (''d2'', 2) # qs" by simp
  have x': "offsetOf True ?L1 = 0 + 1 * 2"
  proof -
    from a w1 d1 obtain ps where p: "bnbAnswers (newEvents ?s ?s1) = map (\<lambda>p. Inr (Some p)) ps @ [Inr (Some [])]"
      "(\<forall>p\<in>set ps. int (length p) = limit (self ?s)) \<and>
          \<bar>offsetOf True ?L\<bar> + int (length ps) * \<bar>limit (self ?s)\<bar> \<le> maxSafe \<longrightarrow>
            offsetOf True ?L1 = offsetOf True ?L + int (length ps) * limit (self ?s)"
      by blast
    from p(1) have "ps = [?ab]" unfolding ev by (metis pages_then_last)
    with p(2) bd v(1,2) show ?thesis by simp
  qed
  from a w2 d2 v have y: "\<exists>qs. bnbQueries (newEvents ?s1 ?t2) = (''d2'', 0) # qs" by simp
  from b w3 d3 v have z: "\<exists>qs. bnbQueries (newEvents ?u1 ?u2) = (''d2'', 2) # qs" by simp
  from x x' y z show ?thesis by blast
qed

text \<open>
  C9 as stated fails on the later revision: after the scan for \<open>d1\<close> has advanced
  to offset 2 and ended on an empty page, the first query for \<open>d2\<close> is sent with
  offset 0, the offset the direction started with, and the swap of \<open>d2\<close> is found.
\<close>

theorem second_deputy_starts_at_start_offset:
  "getRefundableBinanceSwaps_v2 2 twoDeputyClients True (startState [''d1'', ''d2''] 2)
     = Some (Inr [''a'', ''b'', ''c''],
         (startState [''d1'', ''d2''] 2)
           \<lparr>trace := [BnbNodeInfo (Inr (Some 500)),
                      BnbGetSwapByCreator ''d1'' 2 0 (Inr (Some [openSwap ''a'' 10, openSwap ''b'' 20])),
                      BnbGetSwapByCreator ''d1'' 2 2 (Inr (Some [])),
                      BnbGetSwapByCreator ''d2'' 2 0 (Inr (Some [openSwap ''c'' 30])),
                      BnbGetSwapByCreator ''d2'' 2 2 (Inr (Some []))]\<rparr>)"
  by (simp add: eval_defs)

text \<open>
  C10, as the code has it. A scan that pages until a batch comes back empty
  terminates exactly when the client at some round answers with something other
  than a page that holds a swap: an empty batch, no batch, or an error. This is so
  for \<open>getRefundableKavaSwaps\<close> and for the loop of each deputy in
  \<open>getRefundableBinanceSwaps\<close>, in both revisions.

  When the answers come to the empty batch after finitely many pages that hold a
  swap, the scan returns, for every bound on the rounds that is large enough, the
  identifiers of the matching swaps of all pages fetched, in order: on Kava all
  swaps fetched; on Binance Chain, where the loop of every deputy in turn has to
  come to its empty batch (\<open>emptyPageEnds\<close>), the fetched swaps with status 1 in
  refund.js and those that \<open>refundable_v2\<close> lets through in the later revision.
\<close>

theorem page_until_empty_scans:
  fixes c :: "'w clients"
  shows
  "(\<exists>n. getRefundableKavaSwaps n c s \<noteq> None)
     = pagesRunOut (kavaScanBody c) (\<lambda>K s. fst (kavaQuery c (page K) s))
         \<lparr>expiredSwaps = [], page = 1\<rparr> s
 \<and> (\<exists>n. getRefundableKavaSwaps_v2 n c s \<noteq> None)
     = pagesRunOut (kavaScanBody_v2 c) (\<lambda>K s. fst (kavaQuery_v2 c (offset K) s))
         \<lparr>expiredSwaps_v2 = [], offset = 0\<rparr> s
 \<and> terminates (bnbScanBody c i d) L s
     = pagesRunOut (bnbScanBody c i d) (\<lambda>L s. fst (bnbQuery c i d L s)) L s
 \<and> terminates (bnbScanBody_v2 c i h d) L s
     = pagesRunOut (bnbScanBody_v2 c i h d) (\<lambda>L s. fst (bnbQuery c i d L s)) L s
 \<and> (loopReach k (kavaScanBody c) \<lparr>expiredSwaps = [], page = 1\<rparr> s = Some (K', s') \<and>
      fst (kavaQuery c (page K') s') = Inr (Some []) \<longrightarrow>
      (\<exists>sf. \<forall>n>k. getRefundableKavaSwaps n c s
           = Some (Inr (Some (swapIDsOf c (kavaFetched (newEvents s sf)))), sf)))
 \<and> (loopReach k (kavaScanBody_v2 c) \<lparr>expiredSwaps_v2 = [], offset = 0\<rparr> s = Some (K2', s2') \<and>
      fst (kavaQuery_v2 c (offset K2') s2') = Inr (Some []) \<longrightarrow>
      (\<exists>sf. \<forall>n>k. getRefundableKavaSwaps_v2 n c s
           = Some (Inr (swapIDsOf c (kavaFetched (newEvents s sf))), sf)))
 \<and> (emptyPageEnds c i (deputyAddresses (self s)) (bnbLocalsInit s) s sf \<longrightarrow>
      (\<exists>n0. \<forall>n\<ge>n0. getRefundableBinanceSwaps n c i s
           = Some (Inr (Some (map swapId (filter (\<lambda>x. status x = 1) (bnbFetched (newEvents s sf))))), sf)))
 \<and> (call (nodeInfo c) BnbNodeInfo s = (Inr height, s0) \<and>
    emptyPageEnds_v2 c i height (deputyAddresses (self s)) (bnbLocalsInit s) s0 sf2 \<longrightarrow>
      (\<exists>n0. \<forall>n\<ge>n0. getRefundableBinanceSwaps_v2 n c i s
           = Some (Inr (map swapId (filter (refundable_v2 height) (bnbFetched (newEvents s sf2)))), sf2)))"
proof -
  have a: "(\<exists>n. getRefundableKavaSwaps n c s \<noteq> None)
     = pagesRunOut (kavaScanBody c) (\<lambda>K s. fst (kavaQuery c (page K) s))
         \<lparr>expiredSwaps = [], page = 1\<rparr> s"
    using terminates_iff[of "kavaScanBody c" "\<lambda>K s. fst (kavaQuery c (page K) s)", OF kavaScanBody_Continue]
    by (simp add: terminates_def getRefundableKavaSwaps_None)
  have b: "(\<exists>n. getRefundableKavaSwaps_v2 n c s \<noteq> None)
     = pagesRunOut (kavaScanBody_v2 c) (\<lambda>K s. fst (kavaQuery_v2 c (offset K) s))
         \<lparr>expiredSwaps_v2 = [], offset = 0\<rparr> s"
    using terminates_iff[of "kavaScanBody_v2 c" "\<lambda>K s. fst (kavaQuery_v2 c (offset K) s)", OF kavaScanBody_v2_Continue]
    by (simp add: terminates_def getRefundableKavaSwaps_v2_None)
  show ?thesis
    using a b
      terminates_iff[of "bnbScanBody c i d" "\<lambda>L s. fst (bnbQuery c i d L s)", OF bnbScanBody_Continue]
      terminates_iff[of "bnbScanBody_v2 c i h d" "\<lambda>L s. fst (bnbQuery c i d L s)", OF bnbScanBody_v2_Continue]
      getRefundableKavaSwaps_total[of k c s K' s'] getRefundableKavaSwaps_v2_total[of k c s K2' s2']
      getRefundableBinanceSwaps_total[of c i s sf]
      getRefundableBinanceSwaps_v2_total[of c s height s0 i sf2]
    by blast
qed

theorem page_until_empty_scans_witness:
  "(\<exists>n. getRefundableKavaSwaps n oneEachClients (startState [''d1''] 1) \<noteq> None)
 \<and> (\<exists>n. getRefundableKavaSwaps_v2 n oneEachClients_v2 (startState [''d1''] 1) \<noteq> None)
 \<and> terminates (bnbScanBody twoDeputyClients True ''d1'')
      \<lparr>openSwaps = [], loc_offsetIncoming = 0, loc_offsetOutgoing = 0\<rparr> (startState [''d1'', ''d2''] 2)
 \<and> terminates (bnbScanBody_v2 twoDeputyClients True (Some 500) ''d1'')
      \<lparr>openSwaps = [], loc_offsetIncoming = 0, loc_offsetOutgoing = 0\<rparr> (startState [''d1'', ''d2''] 2)
 \<and> (\<exists>sf. getRefundableKavaSwaps 2 oneEachClients (startState [''d1''] 1)
        = Some (Inr (Some [''hkb'']), sf))
 \<and> (\<exists>sf. getRefundableKavaSwaps_v2 2 oneEachClients_v2 (startState [''d1''] 1)
        = Some (Inr [''hkb''], sf))
 \<and> (\<exists>n. getRefundableBinanceSwaps n twoDeputyClients True (startState [''d1'', ''d2''] 2)
        = Some (Inr (Some [''a'', ''b'']),
             (startState [''d1'', ''d2''] 2)
                  \<lparr>trace := [BnbGetSwapByCreator ''d1'' 2 0 (Inr (Some [openSwap ''a'' 10, openSwap ''b'' 20])),
                             BnbGetSwapByCreator ''d1'' 2 2 (Inr (Some [])),
                             BnbGetSwapByCreator ''d2'' 2 2 (Inr (Some []))]\<rparr>))
 \<and> (\<exists>n. getRefundableBinanceSwaps_v2 n twoDeputyClients True (startState [''d1'', ''d2''] 2)
        = Some (Inr [''a'', ''b'', ''c''],
             (startState [''d1'', ''d2''] 2)
                  \<lparr>trace := [BnbNodeInfo (Inr (Some 500)),
                             BnbGetSwapByCreator ''d1'' 2 0 (Inr (Some [openSwap ''a'' 10, openSwap ''b'' 20])),
                             BnbGetSwapByCreator ''d1'' 2 2 (Inr (Some [])),
                             BnbGetSwapByCreator ''d2'' 2 0 (Inr (Some [openSwap ''c'' 30])),
                             BnbGetSwapByCreator ''d2'' 2 2 (Inr (Some []))]\<rparr>))"
proof -
  let ?c = oneEachClients
  let ?c2 = oneEachClients_v2
  let ?d = twoDeputyClients
  let ?s = "startState [''d1''] 1"
  let ?t = "startState [''d1'', ''d2''] 2"
  let ?K = "\<lparr>expiredSwaps = [], page = 1\<rparr>"
  let ?K2 = "\<lparr>expiredSwaps_v2 = [], offset = 0\<rparr>"
  let ?K' = "\<lparr>expiredSwaps = [kavaSwapA], page = 2\<rparr>"
  let ?K2' = "\<lparr>expiredSwaps_v2 = [kavaSwapA], offset = 1\<rparr>"
  let ?sk = "?s\<lparr>trace := [KavaGetSwaps 1 1 (Inr (Some [kavaSwapA]))]\<rparr>"
  let ?sk2 = "?s\<lparr>trace := [KavaGetSwaps 0 1 (Inr (Some [kavaSwapA]))]\<rparr>"
  let ?ab = "[openSwap ''a'' 10, openSwap ''b'' 20]"
  let ?abc = "[openSwap ''a'' 10, openSwap ''b'' 20, openSwap ''c'' 30]"
  let ?L = "\<lparr>openSwaps = [], loc_offsetIncoming = 0, loc_offsetOutgoing = 0\<rparr>"
  let ?L1 = "\<lparr>openSwaps = ?ab, loc_offsetIncoming = 2, loc_offsetOutgoing = 0\<rparr>"
  let ?M1 = "\<lparr>openSwaps = ?ab, loc_offsetIncoming = 0, loc_offsetOutgoing = 0\<rparr>"
  let ?M2 = "\<lparr>openSwaps = ?abc, loc_offsetIncoming = 2, loc_offsetOutgoing = 0\<rparr>"
  let ?M3 = "\<lparr>openSwaps = ?abc, loc_offsetIncoming = 0, loc_offsetOutgoing = 0\<rparr>"
  let ?p0 = "BnbGetSwapByCreator ''d1'' 2 0 (Inr (Some ?ab))"
  let ?p2 = "BnbGetSwapByCreator ''d1'' 2 2 (Inr (Some []))"
  let ?q0 = "BnbGetSwapByCreator ''d2'' 2 0 (Inr (Some [openSwap ''c'' 30]))"
  let ?q2 = "BnbGetSwapByCreator ''d2'' 2 2 (Inr (Some []))"
  let ?ni = "BnbNodeInfo (Inr (Some 500))"
  let ?t1 = "?t\<lparr>trace := [?p0]\<rparr>"
  let ?t2 = "?t\<lparr>trace := [?p0, ?p2]\<rparr>"
  let ?t3 = "?t\<lparr>trace := [?p0, ?p2, ?q2]\<rparr>"
  let ?u0 = "?t\<lparr>trace := [?ni]\<rparr>"
  let ?u1 = "?t\<lparr>trace := [?ni, ?p0]\<rparr>"
  let ?u2 = "?t\<lparr>trace := [?ni, ?p0, ?p2]\<rparr>"
  let ?u3 = "?t\<lparr>trace := [?ni, ?p0, ?p2, ?q0]\<rparr>"
  let ?u4 = "?t\<lparr>trace := [?ni, ?p0, ?p2, ?q0, ?q2]\<rparr>"
  have r1: "loopReach 1 (kavaScanBody ?c) ?K ?s = Some (?K', ?sk)"
    by (simp add: eval_defs)
  have e1: "fst (kavaQuery ?c (page ?K') ?sk) = Inr (Some [])"
    by (simp add: eval_defs)
  have r2: "loopReach 1 (kavaScanBody_v2 ?c2) ?K2 ?s = Some (?K2', ?sk2)"
    by (simp add: eval_defs)
  have e2: "fst (kavaQuery_v2 ?c2 (offset ?K2') ?sk2) = Inr (Some [])"
    by (simp add: eval_defs)
  have r3: "loopReach 1 (bnbScanBody ?d True ''d1'') ?L ?t = Some (?L1, ?t1)"
    by (simp add: eval_defs)
  have e3: "fst (bnbQuery ?d True ''d1'' ?L1 ?t1) = Inr (Some [])"
    by (simp add: eval_defs)
  have w3: "whileLoop (Suc 1) (bnbScanBody ?d True ''d1'') ?L ?t = Some (Break ?L1, ?t2)"
    by (simp add: eval_defs)
  have r4: "loopReach 0 (bnbScanBody ?d True ''d2'') ?L1 ?t2 = Some (?L1, ?t2)"
    by simp
  have e4: "fst (bnbQuery ?d True ''d2'' ?L1 ?t2) = Inr (Some [])"
    by (simp add: eval_defs)
  have w4: "whileLoop (Suc 0) (bnbScanBody ?d True ''d2'') ?L1 ?t2 = Some (Break ?L1, ?t3)"
    by (simp add: eval_defs)
  have n5: "call (nodeInfo ?d) BnbNodeInfo ?t = (Inr (Some 500), ?u0)"
    by (simp add: eval_defs)
  have r5: "loopReach 1 (bnbScanBody_v2 ?d True (Some 500) ''d1'') ?L ?u0 = Some (?L1, ?u1)"
    by (simp add: eval_defs)
  have e5: "fst (bnbQuery ?d True ''d1'' ?L1 ?u1) = Inr (Some [])"
    by (simp add: eval_defs)
  have w5: "whileLoop (Suc 1) (bnbScanBody_v2 ?d True (Some 500) ''d1'') ?L ?u0 = Some (Break ?M1, ?u2)"
    by (simp add: eval_defs)
  have r6: "loopReach 1 (bnbScanBody_v2 ?d True (Some 500) ''d2'') ?M1 ?u2 = Some (?M2, ?u3)"
    by (simp add: eval_defs)
  have e6: "fst (bnbQuery ?d True ''d2'' ?M2 ?u3) = Inr (Some [])"
    by (simp add: eval_defs)
  have w6: "whileLoop (Suc 1) (bnbScanBody_v2 ?d True (Some 500) ''d2'') ?M1 ?u2 = Some (Break ?M3, ?u4)"
    by (simp add: eval_defs)
  have i: "deputyAddresses (self ?t) = [''d1'', ''d2'']" "bnbLocalsInit ?t = ?L"
    by (simp_all add: startState_def bnbLocalsInit_def)
  have p1: "pagesRunOut (kavaScanBody ?c) (\<lambda>K s. fst (kavaQuery ?c (page K) s)) ?K ?s"
    unfolding pagesRunOut_def using r1 e1 by (intro exI[of _ 1] exI[of _ ?K'] exI[of _ ?sk]) simp
  have p2: "pagesRunOut (kavaScanBody_v2 ?c2) (\<lambda>K s. fst (kavaQuery_v2 ?c2 (offset K) s)) ?K2 ?s"
    unfolding pagesRunOut_def using r2 e2 by (intro exI[of _ 1] exI[of _ ?K2'] exI[of _ ?sk2]) simp
  have p3: "pagesRunOut (bnbScanBody ?d True ''d1'') (\<lambda>L s. fst (bnbQuery ?d True ''d1'' L s)) ?L ?t"
    unfolding pagesRunOut_def using r3 e3 by (intro exI[of _ 1] exI[of _ ?L1] exI[of _ ?t1]) simp
  have r7: "loopReach 1 (bnbScanBody_v2 ?d True (Some 500) ''d1'') ?L ?t = Some (?L1, ?t1)"
    by (simp add: eval_defs)
  have p4: "pagesRunOut (bnbScanBody_v2 ?d True (Some 500) ''d1'') (\<lambda>L s. fst (bnbQuery ?d True ''d1'' L s)) ?L ?t"
    unfolding pagesRunOut_def using r7 e3 by (intro exI[of _ 1] exI[of _ ?L1] exI[of _ ?t1]) simp
  have q1: "emptyPageEnds ?d True (deputyAddresses (self ?t)) (bnbLocalsInit ?t) ?t ?t3"
    unfolding i
    by (rule emptyPageEnds_Cons[OF r3 e3 w3]) (rule emptyPageEnds_Cons[OF r4 e4 w4], rule emptyPageEnds_Nil)
  have q2: "emptyPageEnds_v2 ?d True (Some 500) (deputyAddresses (self ?t)) (bnbLocalsInit ?t) ?u0 ?u4"
    unfolding i
    by (rule emptyPageEnds_v2_Cons[OF r5 e5 w5]) (rule emptyPageEnds_v2_Cons[OF r6 e6 w6], rule emptyPageEnds_v2_Nil)
  note a = page_until_empty_scans[where c = ?c and s = ?s and k = 1 and K' = ?K' and s' = ?sk]
  note b = page_until_empty_scans[where c = ?c2 and s = ?s and k = 1 and ?K2'.0 = ?K2' and ?s2'.0 = ?sk2]
  note d = page_until_empty_scans[where c = ?d and s = ?t and i = True and d = "''d1''" and L = ?L
      and h = "Some 500" and sf = ?t3 and height = "Some 500" and ?s0.0 = ?u0 and ?sf2.0 = ?u4]
  have x1: "\<exists>n. getRefundableKavaSwaps n ?c ?s \<noteq> None" using a p1 by blast
  have x2: "\<exists>n. getRefundableKavaSwaps_v2 n ?c2 ?s \<noteq> None" using b p2 by blast
  have x3: "terminates (bnbScanBody ?d True ''d1'') ?L ?t" using d p3 by blast
  have x4: "terminates (bnbScanBody_v2 ?d True (Some 500) ''d1'') ?L ?t" using d p4 by blast
  have ev: "swapIDsOf ?c [kavaSwapA] = [''hkb'']" "swapIDsOf ?c2 [kavaSwapA] = [''hkb'']"
    by (simp_all add: eval_defs)
  have x5: "\<exists>sf. getRefundableKavaSwaps 2 ?c ?s = Some (Inr (Some [''hkb'']), sf)"
  proof -
    from a r1 e1 obtain sf where f: "\<forall>n>1. getRefundableKavaSwaps n ?c ?s
           = Some (Inr (Some (swapIDsOf ?c (kavaFetched (newEvents ?s sf)))), sf)" by blast
    then have g: "getRefundableKavaSwaps 2 ?c ?s
           = Some (Inr (Some (swapIDsOf ?c (kavaFetched (newEvents ?s sf)))), sf)" by simp
    with refundKavaSwaps_oneEach(2) have "sf = ?s\<lparr>trace := take 2 oneEachTrace\<rparr>" by simp
    then have "swapIDsOf ?c (kavaFetched (newEvents ?s sf)) = [''hkb'']"
      by (simp add: newEvents_def startState_def oneEachTrace_def ev)
    with g show ?thesis by auto
  qed
  have x6: "\<exists>sf. getRefundableKavaSwaps_v2 2 ?c2 ?s = Some (Inr [''hkb''], sf)"
  proof -
    from b r2 e2 obtain sf where f: "\<forall>n>1. getRefundableKavaSwaps_v2 n ?c2 ?s
           = Some (Inr (swapIDsOf ?c2 (kavaFetched (newEvents ?s sf))), sf)" by blast
    then have g: "getRefundableKavaSwaps_v2 2 ?c2 ?s
           = Some (Inr (swapIDsOf ?c2 (kavaFetched (newEvents ?s sf))), sf)" by simp
    with refundKavaSwaps_v2_oneEach(2) have "sf = ?s\<lparr>trace := take 2 oneEachTrace_v2\<rparr>" by simp
    then have "swapIDsOf ?c2 (kavaFetched (newEvents ?s sf)) = [''hkb'']"
      by (simp add: newEvents_def startState_def oneEachTrace_v2_def ev)
    with g show ?thesis by auto
  qed
  have fv: "map swapId (filter (\<lambda>x. status x = 1) (bnbFetched (newEvents ?t ?t3))) = [''a'', ''b'']"
    "map swapId (filter (refundable_v2 (Some 500)) (bnbFetched (newEvents ?t ?u4))) = [''a'', ''b'', ''c'']"
    by (simp_all add: newEvents_def startState_def openSwap_def refundable_v2_def js_le_def)
  have x7: "\<exists>n. getRefundableBinanceSwaps n ?d True ?t = Some (Inr (Some [''a'', ''b'']), ?t3)"
  proof -
    from d q1 obtain n0 where "\<forall>n\<ge>n0. getRefundableBinanceSwaps n ?d True ?t
        = Some (Inr (Some (map swapId (filter (\<lambda>x. status x = 1) (bnbFetched (newEvents ?t ?t3))))), ?t3)"
      by blast
    then have "getRefundableBinanceSwaps n0 ?d True ?t
        = Some (Inr (Some (map swapId (filter (\<lambda>x. status x = 1) (bnbFetched (newEvents ?t ?t3))))), ?t3)"
      by simp
    then show ?thesis unfolding fv by blast
  qed
  have x8: "\<exists>n. getRefundableBinanceSwaps_v2 n ?d True ?t = Some (Inr [''a'', ''b'', ''c''], ?u4)"
  proof -
    from d n5 q2 obtain n0 where "\<forall>n\<ge>n0. getRefundableBinanceSwaps_v2 n ?d True ?t
        = Some (Inr (map swapId (filter (refundable_v2 (Some 500)) (bnbFetched (newEvents ?t ?u4)))), ?u4)"
      by blast
    then have "getRefundableBinanceSwaps_v2 n0 ?d True ?t
        = Some (Inr (map swapId (filter (refundable_v2 (Some 500)) (bnbFetched (newEvents ?t ?u4)))), ?u4)"
      by simp
    then show ?thesis unfolding fv by blast
  qed
  from x1 x2 x3 x4 x5 x6 x7 x8 show ?thesis by blast
qed

text \<open>
  C10 as stated fails: Kava lists one swap on the first page, so there are only
  finitely many pages that hold a swap, and fails on the second query. The scan of
  refund.js then returns \<open>undefined\<close>, not the identifier of the swap it fetched.
\<close>

theorem failed_query_after_a_page:
  "getRefundableKavaSwaps 2 secondPageDownClients (startState [''d1''] 1)
     = Some (Inr None,
         (startState [''d1''] 1)
           \<lparr>trace := [KavaGetSwaps 1 1 (Inr (Some [kavaSwapA])),
                      KavaGetSwaps 2 1 (Inl (Error ''timeout'')),
                      Console KavaQueryFailed]\<rparr>)"
  by (simp add: eval_defs secondPageDownClients_def)

end
